theory Spec2Isabelle
  imports Main
begin

section \<open>Data model\<close>

text \<open>
  The development embeds \<^verbatim>\<open>BlueprintEventNodeSpawner.cpp\<close>: the event node spawner of the
  Blueprint graph editor. The spawner's own functions (\<^verbatim>\<open>RemoveGhostNodes\<close>,
  \<^verbatim>\<open>GetSpawnerSignature\<close>, \<^verbatim>\<open>Invoke\<close>, \<^verbatim>\<open>FindPreExistingEvent\<close>, \<^verbatim>\<open>IsForCustomEvent\<close>) are
  translated from that file. The engine types and helpers they call live in other files; each of
  those is modelled from the specification and marked as such.
\<close>

text \<open>An \<^verbatim>\<open>FName\<close> is either the distinguished name \<^verbatim>\<open>NAME_None\<close> or a proper name.\<close>

datatype FName = NAME_None | Name string

definition IsNone :: "FName \<Rightarrow> bool" where
  "IsNone n \<longleftrightarrow> n = NAME_None"

fun ToString :: "FName \<Rightarrow> string" where
  "ToString NAME_None = ''None''"
| "ToString (Name s) = s"

text \<open>
  Graph nodes are heap objects. The store is the list \<open>Objects\<close> of a graph; a node pointer
  is an index into it, and a pin pointer is the pair of its owning node and its position in
  that node's \<^verbatim>\<open>Pins\<close> array. An index outside the store denotes no object.
\<close>

type_synonym node_id = nat

type_synonym pin_ref = "node_id \<times> nat"

type_synonym class_id = nat

record UEdGraphPin =
  LinkedTo :: "pin_ref list"

datatype event_class = K2Node_Event | K2Node_CustomEvent

datatype node_class = EventClass event_class | K2Node_FunctionEntry | K2Node_Other

record UClass =
  AuthoritativeClass :: class_id

record UFunction =
  FunctionFName :: FName
  OwnerClass :: UClass

record FMemberReference =
  MemberParent :: "class_id option"
  MemberName :: FName

text \<open>
  Modelled from the spec: the node type \<^verbatim>\<open>UEdGraphNode\<close> / \<^verbatim>\<open>UK2Node_Event\<close>, whose
  declaration is not part of the sources. The fields are the ones the spawner reads and writes
  (\<^verbatim>\<open>Pins\<close>, \<^verbatim>\<open>EventReference\<close>, \<^verbatim>\<open>bOverrideFunction\<close>, \<^verbatim>\<open>CustomFunctionName\<close>), the node's
  class, its placement, and the liveness flag of the specification's data model (ghost versus
  normal), which is what \<^verbatim>\<open>IsAutomaticallyPlacedGhostNode\<close> reports.
\<close>

record UEdGraphNode =
  GetClass :: node_class
  bAutoPlacedGhost :: bool
  Pins :: "UEdGraphPin list"
  bOverrideFunction :: bool
  EventReference :: FMemberReference
  CustomFunctionName :: FName
  NodePos :: "int \<times> int"

record UFunctionGraph =
  GraphFName :: FName
  GraphNodes :: "node_id list"

text \<open>
  Modelled from the spec: the target graph "owns a collection of GraphNode, plus a separate
  collection of named sub-graphs". A value of this record is the parent graph together with the
  blueprint that owns it, which \<^verbatim>\<open>Invoke\<close> reaches from the graph. \<open>Nodes\<close> is the
  \<^verbatim>\<open>Nodes\<close> array of the parent graph. A blueprint has other graphs as well:
  \<open>EarlierGraphNodes\<close> and \<open>LaterGraphNodes\<close> are the nodes of the graphs (function
  sub-graphs included) that a walk over all graphs of the blueprint reaches before the parent
  graph and after it. All graphs share the store. \<open>FunctionGraphs\<close> is the
  \<^verbatim>\<open>FunctionGraphs\<close> array of the blueprint (entries may be null), and \<open>bTemplateOuter\<close> what
  \<^verbatim>\<open>FBlueprintNodeTemplateCache::IsTemplateOuter\<close> answers for the parent graph.
\<close>

record UEdGraph =
  Objects :: "UEdGraphNode list"
  Nodes :: "node_id list"
  EarlierGraphNodes :: "node_id list"
  LaterGraphNodes :: "node_id list"
  FunctionGraphs :: "UFunctionGraph option list"
  bTemplateOuter :: bool

datatype error = AssertionFailed

section \<open>Engine helpers on nodes, pins and graphs\<close>

text \<open>Modelled from the spec: \<^verbatim>\<open>UEdGraphNode::IsAutomaticallyPlacedGhostNode\<close>, the liveness flag.\<close>

definition IsAutomaticallyPlacedGhostNode :: "UEdGraph \<Rightarrow> node_id \<Rightarrow> bool" where
  "IsAutomaticallyPlacedGhostNode g n \<longleftrightarrow>
     n < length (Objects g) \<and> bAutoPlacedGhost (Objects g ! n)"

definition NodePins :: "UEdGraph \<Rightarrow> node_id \<Rightarrow> UEdGraphPin list" where
  "NodePins g n = (if n < length (Objects g) then Pins (Objects g ! n) else [])"

definition GetLinkedTo :: "UEdGraph \<Rightarrow> pin_ref \<Rightarrow> pin_ref list" where
  "GetLinkedTo g p =
     (if snd p < length (NodePins g (fst p)) then LinkedTo (NodePins g (fst p) ! snd p) else [])"

definition SetLinkedTo :: "UEdGraph \<Rightarrow> pin_ref \<Rightarrow> pin_ref list \<Rightarrow> UEdGraph" where
  "SetLinkedTo g p ls =
     (if snd p < length (NodePins g (fst p))
      then g\<lparr>Objects := (Objects g)[fst p := (Objects g ! fst p)
               \<lparr>Pins := (Pins (Objects g ! fst p))[snd p := \<lparr>LinkedTo = ls\<rparr>]\<rparr>]\<rparr>
      else g)"

definition GetOwningNode :: "pin_ref \<Rightarrow> node_id option" where
  "GetOwningNode p = Some (fst p)"

text \<open>
  Modelled from the spec: \<^verbatim>\<open>UEdGraphPin::BreakLinkTo\<close>, "sever the link on both ends":
  \<^verbatim>\<open>this->BreakLinkTo(ToPin)\<close> takes \<open>ToPin\<close> out of the links of \<open>this\<close> and \<open>this\<close> out of
  the links of \<open>ToPin\<close>.
\<close>

definition BreakLinkTo :: "UEdGraph \<Rightarrow> pin_ref \<Rightarrow> pin_ref \<Rightarrow> UEdGraph" where
  "BreakLinkTo g this ToPin =
     (let g1 = SetLinkedTo g this (removeAll ToPin (GetLinkedTo g this))
      in SetLinkedTo g1 ToPin (removeAll this (GetLinkedTo g1 ToPin)))"

text \<open>
  Modelled from the spec: \<^verbatim>\<open>UEdGraphNode::BreakAllNodeLinks\<close>, "disconnect" the node: every
  link of every pin of the node is severed on both ends.
\<close>

definition BreakAllPinLinks :: "UEdGraph \<Rightarrow> pin_ref \<Rightarrow> UEdGraph" where
  "BreakAllPinLinks g p = fold (\<lambda>q h. BreakLinkTo h p q) (GetLinkedTo g p) g"

definition BreakAllNodeLinks :: "UEdGraph \<Rightarrow> node_id \<Rightarrow> UEdGraph" where
  "BreakAllNodeLinks g n =
     fold (\<lambda>i h. BreakAllPinLinks h (n, i)) [0..<length (NodePins g n)] g"

text \<open>
  Modelled from the spec: \<^verbatim>\<open>UEdGraph::RemoveNode\<close>, the node leaves the \<^verbatim>\<open>Nodes\<close> of the
  graph the call is made on, which is the parent graph. The other graphs of the blueprint are
  not touched.
\<close>

definition RemoveNode :: "UEdGraph \<Rightarrow> node_id \<Rightarrow> UEdGraph" where
  "RemoveNode g n = g\<lparr>Nodes := removeAll n (Nodes g)\<rparr>"

section \<open>The ghost cascade\<close>

text \<open>
  \<^verbatim>\<open>UBlueprintEventNodeSpawnerImpl::RemoveGhostNodes\<close>. The two nested range loops are the
  functions \<open>RemoveGhostNodes_Pins\<close> (over the indices of \<^verbatim>\<open>InNode->Pins\<close>) and
  \<open>RemoveGhostNodes_LinkedTo\<close> (over \<^verbatim>\<open>LinkedToCopy\<close>, the copy taken when the outer loop
  reaches the pin). The graph is threaded through every call.
\<close>

function (sequential)
  RemoveGhostNodes :: "node_id option \<Rightarrow> UEdGraph \<Rightarrow> UEdGraph" and
  RemoveGhostNodes_Pins :: "node_id \<Rightarrow> nat list \<Rightarrow> UEdGraph \<Rightarrow> UEdGraph" and
  RemoveGhostNodes_LinkedTo :: "pin_ref \<Rightarrow> pin_ref list \<Rightarrow> UEdGraph \<Rightarrow> UEdGraph"
where
  "RemoveGhostNodes None g = g"
| "RemoveGhostNodes (Some n) g =
     (if IsAutomaticallyPlacedGhostNode g n
      then RemoveNode
             (BreakAllNodeLinks (RemoveGhostNodes_Pins n [0..<length (NodePins g n)] g) n) n
      else g)"
| "RemoveGhostNodes_Pins n [] g = g"
| "RemoveGhostNodes_Pins n (i # rest) g =
     RemoveGhostNodes_Pins n rest (RemoveGhostNodes_LinkedTo (n, i) (GetLinkedTo g (n, i)) g)"
| "RemoveGhostNodes_LinkedTo Pin [] g = g"
| "RemoveGhostNodes_LinkedTo Pin (OtherPin # rest) g =
     RemoveGhostNodes_LinkedTo Pin rest
       (RemoveGhostNodes (GetOwningNode OtherPin) (BreakLinkTo g OtherPin Pin))"
  by pat_completeness auto

section \<open>The spawner\<close>

record UBlueprintEventNodeSpawner =
  NodeClass :: event_class
  EventFunc :: "UFunction option"
  CustomEventName :: FName
  CustomizeNodeDelegate :: "(UEdGraphNode \<Rightarrow> bool \<Rightarrow> UEdGraphNode) option"

definition IsForCustomEvent :: "UBlueprintEventNodeSpawner \<Rightarrow> bool" where
  "IsForCustomEvent sp \<longleftrightarrow> EventFunc sp = None"

text \<open>
  \<^verbatim>\<open>UBlueprintEventNodeSpawner::Create(EventFunc, Outer)\<close>: the spawner of the event of a
  function. Its \<^verbatim>\<open>check(EventFunc != nullptr)\<close> holds by the type of the argument.
\<close>

definition Create_EventFunc :: "UFunction \<Rightarrow> UBlueprintEventNodeSpawner" where
  "Create_EventFunc InEventFunc =
     \<lparr>NodeClass = K2Node_Event, EventFunc = Some InEventFunc, CustomEventName = NAME_None,
      CustomizeNodeDelegate = None\<rparr>"

text \<open>
  \<^verbatim>\<open>UBlueprintEventNodeSpawner::Create(NodeClass, CustomEventName, Outer)\<close>: the spawner of a
  custom event. The constructor leaves \<^verbatim>\<open>EventFunc\<close> null and no customization hook is bound.
  The name may be \<^verbatim>\<open>NAME_None\<close>: that is the "Add Custom Event..." entry. The menu signature
  is presentation and left out.
\<close>

definition Create_CustomEvent :: "event_class \<Rightarrow> FName \<Rightarrow> UBlueprintEventNodeSpawner" where
  "Create_CustomEvent InNodeClass InCustomEventName =
     \<lparr>NodeClass = InNodeClass, EventFunc = None, CustomEventName = InCustomEventName,
      CustomizeNodeDelegate = None\<rparr>"

text \<open>
  Modelled from the spec: \<^verbatim>\<open>FBlueprintNodeSignature\<close>, a comparable signature: the node class
  it was built for and the keyed values and sub-objects added to it, in order.
\<close>

datatype signature_entry = NamedValue FName string | SubObject "UFunction option"

record FBlueprintNodeSignature =
  SigNodeClass :: event_class
  SigEntries :: "signature_entry list"

definition AddNamedValue :: "FBlueprintNodeSignature \<Rightarrow> FName \<Rightarrow> string \<Rightarrow> FBlueprintNodeSignature" where
  "AddNamedValue sig key val = sig\<lparr>SigEntries := SigEntries sig @ [NamedValue key val]\<rparr>"

definition AddSubObject :: "FBlueprintNodeSignature \<Rightarrow> UFunction option \<Rightarrow> FBlueprintNodeSignature" where
  "AddSubObject sig obj = sig\<lparr>SigEntries := SigEntries sig @ [SubObject obj]\<rparr>"

definition CustomSignatureKey :: FName where
  "CustomSignatureKey = Name ''CustomEvent''"

definition GetSpawnerSignature :: "UBlueprintEventNodeSpawner \<Rightarrow> FBlueprintNodeSignature" where
  "GetSpawnerSignature sp =
     (let SpawnerSignature = \<lparr>SigNodeClass = NodeClass sp, SigEntries = []\<rparr>
      in if IsForCustomEvent sp \<and> \<not> IsNone (CustomEventName sp)
         then AddNamedValue SpawnerSignature CustomSignatureKey (ToString (CustomEventName sp))
         else AddSubObject SpawnerSignature (EventFunc sp))"

section \<open>Looking up existing event nodes\<close>

text \<open>
  Modelled from the spec: the nodes of all graphs of the blueprint, in the order of the walk.
  \<^verbatim>\<open>Invoke\<close> hands the blueprint, not the parent graph, to \<^verbatim>\<open>FindPreExistingEvent\<close> ("only
  one node is allowed per event, per blueprint"), so the two lookups of the engine search the
  event nodes among these.
\<close>

definition BlueprintNodes :: "UEdGraph \<Rightarrow> node_id list" where
  "BlueprintNodes Blueprint =
     EarlierGraphNodes Blueprint @ Nodes Blueprint @ LaterGraphNodes Blueprint"

definition IsEventNode :: "UEdGraph \<Rightarrow> node_id \<Rightarrow> bool" where
  "IsEventNode g n \<longleftrightarrow>
     n < length (Objects g) \<and>
     (case GetClass (Objects g ! n) of EventClass c \<Rightarrow> True | K2Node_FunctionEntry \<Rightarrow> False
      | K2Node_Other \<Rightarrow> False)"

definition GetAllEventNodes :: "UEdGraph \<Rightarrow> node_id list" where
  "GetAllEventNodes Blueprint = filter (IsEventNode Blueprint) (BlueprintNodes Blueprint)"

text \<open>
  Modelled from the spec: \<^verbatim>\<open>FBlueprintEditorUtils::FindCustomEventNode\<close>, "a node flagged as a
  custom event with that exact name". A node without a custom name is not flagged as a custom
  event, so no node answers a lookup of \<^verbatim>\<open>NAME_None\<close>.
\<close>

definition FindCustomEventNode :: "UEdGraph \<Rightarrow> FName \<Rightarrow> node_id option" where
  "FindCustomEventNode Blueprint CustomName =
     (if CustomName = NAME_None then None
      else find (\<lambda>n. CustomFunctionName (Objects Blueprint ! n) = CustomName)
             (GetAllEventNodes Blueprint))"

text \<open>
  Modelled from the spec: \<^verbatim>\<open>FBlueprintEditorUtils::FindOverrideForFunction\<close>, "a node flagged
  as an override of that exact function, scoped to the function's authoritative owning type".
\<close>

definition FindOverrideForFunction :: "UEdGraph \<Rightarrow> class_id \<Rightarrow> FName \<Rightarrow> node_id option" where
  "FindOverrideForFunction Blueprint SignatureClass SignatureName =
     find (\<lambda>n. bOverrideFunction (Objects Blueprint ! n) \<and>
                MemberName (EventReference (Objects Blueprint ! n)) = SignatureName \<and>
                MemberParent (EventReference (Objects Blueprint ! n)) = Some SignatureClass)
       (GetAllEventNodes Blueprint)"

text \<open>
  \<^verbatim>\<open>UBlueprintEventNodeSpawner::FindPreExistingEvent\<close>. Its two checks hold by construction:
  the blueprint is there (it is read from the graph), and \<^verbatim>\<open>EventFunc\<close> is not null in the
  branch taken when the spawner is not for a custom event.
\<close>

definition FindPreExistingEvent :: "UBlueprintEventNodeSpawner \<Rightarrow> UEdGraph \<Rightarrow> node_id option" where
  "FindPreExistingEvent sp Blueprint =
     (case EventFunc sp of
        None \<Rightarrow> FindCustomEventNode Blueprint (CustomEventName sp)
      | Some f \<Rightarrow>
          (let ClassOwner = AuthoritativeClass (OwnerClass f)
           in FindOverrideForFunction Blueprint ClassOwner (FunctionFName f)))"

section \<open>Spawning\<close>

text \<open>
  Modelled from the spec: \<^verbatim>\<open>FMemberReference::SetFromField\<close>, "bind the node to the function
  reference": the reference holds the function's name and its authoritative owning class.
\<close>

definition SetFromField :: "UFunction \<Rightarrow> bool \<Rightarrow> FMemberReference" where
  "SetFromField f bIsConsideredSelfContext =
     \<lparr>MemberParent = (if bIsConsideredSelfContext then None
                       else Some (AuthoritativeClass (OwnerClass f))),
      MemberName = FunctionFName f\<rparr>"

definition ExecuteIfBound ::
  "(UEdGraphNode \<Rightarrow> bool \<Rightarrow> UEdGraphNode) option \<Rightarrow> UEdGraphNode \<Rightarrow> bool \<Rightarrow> UEdGraphNode" where
  "ExecuteIfBound d NewNode bIsTemplateNode =
     (case d of None \<Rightarrow> NewNode | Some h \<Rightarrow> h NewNode bIsTemplateNode)"

text \<open>The lambda \<^verbatim>\<open>PostSpawnLambda\<close> of \<^verbatim>\<open>Invoke\<close>.\<close>

definition PostSpawnLambda ::
  "UEdGraphNode \<Rightarrow> bool \<Rightarrow> UFunction option \<Rightarrow> FName \<Rightarrow>
   (UEdGraphNode \<Rightarrow> bool \<Rightarrow> UEdGraphNode) option \<Rightarrow> UEdGraphNode" where
  "PostSpawnLambda NewNode bInIsTemplateNode InEventFunc InEventName UserDelegate =
     (let K2EventNode =
        (case InEventFunc of
           Some f \<Rightarrow> NewNode\<lparr>bOverrideFunction := True, EventReference := SetFromField f False\<rparr>
         | None \<Rightarrow>
             if \<not> bInIsTemplateNode then NewNode\<lparr>CustomFunctionName := InEventName\<rparr>
             else NewNode)
      in ExecuteIfBound UserDelegate K2EventNode bInIsTemplateNode)"

text \<open>
  Modelled from the spec: \<^verbatim>\<open>UBlueprintNodeSpawner::SpawnNode\<close>, "create a new GraphNode of the
  requested kind, attach it to graph at position, and apply identity-specific initialization".
  The new object is a live node of the requested class with no links; it takes the next free
  address of the store and joins the \<^verbatim>\<open>Nodes\<close> of the parent graph.
\<close>

definition NewObject :: "node_class \<Rightarrow> UEdGraphNode" where
  "NewObject c =
     \<lparr>GetClass = c, bAutoPlacedGhost = False, Pins = [], bOverrideFunction = False,
      EventReference = \<lparr>MemberParent = None, MemberName = NAME_None\<rparr>,
      CustomFunctionName = NAME_None, NodePos = (0, 0)\<rparr>"

definition SpawnNode ::
  "event_class \<Rightarrow> UEdGraph \<Rightarrow> int \<times> int \<Rightarrow> (UEdGraphNode \<Rightarrow> bool \<Rightarrow> UEdGraphNode) \<Rightarrow>
   node_id \<times> UEdGraph" where
  "SpawnNode InNodeClass ParentGraph Location PostSpawnDelegate =
     (let bIsTemplateNode = bTemplateOuter ParentGraph;
          NewNode = PostSpawnDelegate (NewObject (EventClass InNodeClass)) bIsTemplateNode;
          NewNode = NewNode\<lparr>NodePos := Location\<rparr>;
          addr = length (Objects ParentGraph)
      in (addr, ParentGraph\<lparr>Objects := Objects ParentGraph @ [NewNode],
                              Nodes := Nodes ParentGraph @ [addr]\<rparr>))"

section \<open>Invoke\<close>

text \<open>
  The loop of \<^verbatim>\<open>Invoke\<close> over \<^verbatim>\<open>Blueprint->FunctionGraphs\<close>: it stops at the first non-null
  graph whose name is \<open>EventName\<close>.
\<close>

fun FindFunctionGraph :: "FName \<Rightarrow> UFunctionGraph option list \<Rightarrow> UFunctionGraph option" where
  "FindFunctionGraph EventName [] = None"
| "FindFunctionGraph EventName (None # rest) = FindFunctionGraph EventName rest"
| "FindFunctionGraph EventName (Some FuncGraph # rest) =
     (if GraphFName FuncGraph = EventName then Some FuncGraph
      else FindFunctionGraph EventName rest)"

text \<open>Modelled from the spec: \<^verbatim>\<open>GetNodesOfClass<UK2Node_FunctionEntry>\<close>, the entry nodes of a sub-graph.\<close>

definition GetFunctionEntryNodes :: "UEdGraph \<Rightarrow> UFunctionGraph \<Rightarrow> node_id list" where
  "GetFunctionEntryNodes g FuncGraph =
     filter (\<lambda>n. n < length (Objects g) \<and> GetClass (Objects g ! n) = K2Node_FunctionEntry)
       (GraphNodes FuncGraph)"

text \<open>The local \<^verbatim>\<open>EventName\<close> of \<^verbatim>\<open>Invoke\<close>: the custom name, or the name of the function.\<close>

definition GetEventName :: "UBlueprintEventNodeSpawner \<Rightarrow> FName" where
  "GetEventName sp =
     (case EventFunc sp of None \<Rightarrow> CustomEventName sp | Some f \<Rightarrow> FunctionFName f)"

text \<open>
  \<^verbatim>\<open>UBlueprintEventNodeSpawner::Invoke\<close>. A failed \<^verbatim>\<open>check\<close> is the error
  \<open>AssertionFailed\<close>; otherwise the result is the returned node pointer (\<open>None\<close> for
  \<^verbatim>\<open>nullptr\<close>) and the graph as the call leaves it. The blueprint of the parent graph is read
  from the graph itself, so \<^verbatim>\<open>FindBlueprintForGraphChecked\<close> always finds it. The lookup
  \<^verbatim>\<open>FindPreExistingEvent\<close> and the loop over \<^verbatim>\<open>FunctionGraphs\<close> read the blueprint (all its
  graphs); \<^verbatim>\<open>RemoveGhostNodes\<close> and \<^verbatim>\<open>SpawnNode\<close> are given the parent graph and edit its
  \<^verbatim>\<open>Nodes\<close> only. The two tests on \<^verbatim>\<open>EventNode\<close> that follow the loop are the \<open>case\<close> that
  yields \<open>EventNode1\<close> and the \<open>case\<close> on \<open>EventNode1\<close>.
\<close>

definition Invoke ::
  "UBlueprintEventNodeSpawner \<Rightarrow> UEdGraph option \<Rightarrow> int \<times> int \<Rightarrow>
   error + (node_id option \<times> UEdGraph)" where
  "Invoke sp ParentGraph Location =
     (case ParentGraph of
        None \<Rightarrow> Inl AssertionFailed
      | Some g \<Rightarrow>
          (let EventNode = (if \<not> bTemplateOuter g then FindPreExistingEvent sp g else None);
               bIsCustomEvent = IsForCustomEvent sp
           in if \<not> (bIsCustomEvent \<or> EventFunc sp \<noteq> None) then Inl AssertionFailed
              else
                (let EventName = GetEventName sp
                 in case FindFunctionGraph EventName (FunctionGraphs g) of
                      Some FuncGraph \<Rightarrow>
                        (case GetFunctionEntryNodes g FuncGraph of
                           e # _ \<Rightarrow> Inr (Some e, g)
                         | [] \<Rightarrow> Inr (None, g))
                    | None \<Rightarrow>
                        (let (EventNode1, g1) =
                           (case EventNode of
                              Some e \<Rightarrow>
                                if IsAutomaticallyPlacedGhostNode g e
                                then (None, RemoveGhostNodes (Some e) g)
                                else (Some e, g)
                            | None \<Rightarrow> (None, g))
                         in case EventNode1 of
                              None \<Rightarrow>
                                (let PostSpawnDelegate =
                                       (\<lambda>NewNode bIsTemplateNode.
                                          PostSpawnLambda NewNode bIsTemplateNode (EventFunc sp)
                                            EventName (CustomizeNodeDelegate sp));
                                     (n, g2) = SpawnNode (NodeClass sp) g1 Location PostSpawnDelegate
                                 in Inr (Some n, g2))
                            | Some e \<Rightarrow> Inr (Some e, g1)))))"

section \<open>Vocabulary of the properties\<close>

subsection \<open>Pins, links and their count\<close>

text \<open>
  A pin pointer denotes a pin: its node is in the store and has a pin at that position.
\<close>

definition ValidPin :: "UEdGraph \<Rightarrow> pin_ref \<Rightarrow> bool" where
  "ValidPin g p \<longleftrightarrow> snd p < length (NodePins g (fst p))"

text \<open>
  The number of links held in the store: the sum, over all pins of all nodes, of the length of
  \<^verbatim>\<open>LinkedTo\<close>.
\<close>

definition PinLinks :: "UEdGraphPin \<Rightarrow> nat" where "PinLinks p = length (LinkedTo p)"

definition NodeLinks :: "UEdGraphNode \<Rightarrow> nat" where "NodeLinks n = sum_list (map PinLinks (Pins n))"

definition TotalLinks :: "UEdGraph \<Rightarrow> nat" where "TotalLinks g = sum_list (map NodeLinks (Objects g))"

text \<open>
  The measure of the cascade, compared lexicographically: the number of links; then the kind
  of call, a loop over a copy whose head is no longer linked ranking above a call on a node,
  that above the loop over the pins, and that above a loop over a copy whose head is still
  linked; then the length of the list a loop still has to walk.
\<close>

definition CascadeMeasure1 ::
  "(node_id option \<times> UEdGraph) + (node_id \<times> nat list \<times> UEdGraph) + (pin_ref \<times> pin_ref list \<times> UEdGraph) \<Rightarrow> nat" where
  "CascadeMeasure1 x = (case x of Inl (n, g) \<Rightarrow> TotalLinks g
     | Inr (Inl (n, is, g)) \<Rightarrow> TotalLinks g
     | Inr (Inr (p, qs, g)) \<Rightarrow> TotalLinks g)"

definition CascadeMeasure2 ::
  "(node_id option \<times> UEdGraph) + (node_id \<times> nat list \<times> UEdGraph) + (pin_ref \<times> pin_ref list \<times> UEdGraph) \<Rightarrow> nat" where
  "CascadeMeasure2 x = (case x of Inl (n, g) \<Rightarrow> 2
     | Inr (Inl (n, is, g)) \<Rightarrow> 1
     | Inr (Inr (p, qs, g)) \<Rightarrow> (case qs of [] \<Rightarrow> 0 | q # _ \<Rightarrow> if q \<in> set (GetLinkedTo g p) then 0 else 3))"

definition CascadeMeasure3 ::
  "(node_id option \<times> UEdGraph) + (node_id \<times> nat list \<times> UEdGraph) + (pin_ref \<times> pin_ref list \<times> UEdGraph) \<Rightarrow> nat" where
  "CascadeMeasure3 x = (case x of Inl (n, g) \<Rightarrow> 0
     | Inr (Inl (n, is, g)) \<Rightarrow> length is
     | Inr (Inr (p, qs, g)) \<Rightarrow> length qs)"

subsection \<open>What a cascade may change\<close>

text \<open>
  Two graphs with the same node data: they differ at most in the links of their pins and in
  which nodes are in the parent graph.
\<close>

definition StripLinks :: "UEdGraphNode \<Rightarrow> UEdGraphNode" where
  "StripLinks n = n\<lparr>Pins := map (\<lambda>p. \<lparr>LinkedTo = []\<rparr>) (Pins n)\<rparr>"

definition SameNodeData :: "UEdGraph \<Rightarrow> UEdGraph \<Rightarrow> bool" where
  "SameNodeData g g' \<longleftrightarrow>
     map StripLinks (Objects g') = map StripLinks (Objects g) \<and>
     EarlierGraphNodes g' = EarlierGraphNodes g \<and> LaterGraphNodes g' = LaterGraphNodes g \<and>
     FunctionGraphs g' = FunctionGraphs g \<and> bTemplateOuter g' = bTemplateOuter g"

text \<open>What a cascade may change: links disappear, ghost nodes leave the graph, nothing else.\<close>

definition CascadeFrame :: "UEdGraph \<Rightarrow> UEdGraph \<Rightarrow> bool" where
  "CascadeFrame g g' \<longleftrightarrow>
     SameNodeData g g' \<and>
     (\<forall>p. set (GetLinkedTo g' p) \<subseteq> set (GetLinkedTo g p)) \<and>
     set (Nodes g') \<subseteq> set (Nodes g) \<and>
     (\<forall>n. n \<in> set (Nodes g) \<and> n \<notin> set (Nodes g') \<longrightarrow> IsAutomaticallyPlacedGhostNode g n)"

subsection \<open>Removed nodes and severed links\<close>

text \<open>
  A node without links, and a node that is gone: out of the graph and without links.
\<close>

definition NodeLinkless :: "UEdGraph \<Rightarrow> node_id \<Rightarrow> bool" where
  "NodeLinkless g n \<longleftrightarrow> (\<forall>i. GetLinkedTo g (n, i) = [])"

definition Gone :: "UEdGraph \<Rightarrow> node_id \<Rightarrow> bool" where
  "Gone g n \<longleftrightarrow> n \<notin> set (Nodes g) \<and> NodeLinkless g n"

text \<open>Every node that left the graph is without links.\<close>

definition RemovedLinkless :: "UEdGraph \<Rightarrow> UEdGraph \<Rightarrow> bool" where
  "RemovedLinkless g g' \<longleftrightarrow>
     (\<forall>n. n \<in> set (Nodes g) \<and> n \<notin> set (Nodes g') \<longrightarrow> NodeLinkless g' n)"

text \<open>Every severed link has its ghost ends gone, but for the nodes of \<open>N\<close> (the node whose
  loops are still running).\<close>

definition Settled :: "node_id set \<Rightarrow> UEdGraph \<Rightarrow> UEdGraph \<Rightarrow> bool" where
  "Settled N g g' \<longleftrightarrow>
     (\<forall>p q m. q \<in> set (GetLinkedTo g p) \<and> q \<notin> set (GetLinkedTo g' p) \<and>
              (m = fst p \<or> m = fst q) \<and> IsAutomaticallyPlacedGhostNode g m
              \<longrightarrow> m \<in> N \<or> Gone g' m)"

text \<open>Links are kept in both directions: a pin lists exactly the pins that list it.\<close>

definition AllPins :: "UEdGraph \<Rightarrow> pin_ref list" where
  "AllPins g =
     concat (map (\<lambda>n. map (\<lambda>i. (n, i)) [0..<length (NodePins g n)]) [0..<length (Objects g)])"

definition LinksSymmetric :: "UEdGraph \<Rightarrow> bool" where
  "LinksSymmetric g \<longleftrightarrow>
     list_all (\<lambda>p. list_all (\<lambda>q. p \<in> set (GetLinkedTo g q)) (GetLinkedTo g p)) (AllPins g)"

text \<open>The ghost nodes connected to a ghost node \<open>n\<close>: \<open>n\<close> itself, and every ghost node linked
  from a pin of a node already connected.\<close>

inductive GhostConnected :: "UEdGraph \<Rightarrow> node_id \<Rightarrow> node_id \<Rightarrow> bool" for g :: UEdGraph where
  start: "IsAutomaticallyPlacedGhostNode g n \<Longrightarrow> GhostConnected g n n"
| step: "GhostConnected g n m \<Longrightarrow> q \<in> set (GetLinkedTo g (m, i)) \<Longrightarrow>
         IsAutomaticallyPlacedGhostNode g (fst q) \<Longrightarrow> GhostConnected g n (fst q)"

subsection \<open>Nodes that carry the mark of an identity\<close>

definition IsEventClass :: "node_class \<Rightarrow> bool" where
  "IsEventClass c = (case c of EventClass e \<Rightarrow> True | K2Node_FunctionEntry \<Rightarrow> False | K2Node_Other \<Rightarrow> False)"

text \<open>A node carries the mark of the spawner's identity: it is an event node and, for a
  function-backed identity, flagged as an override of that function in its authoritative owning
  class; for a custom identity, named with the custom name.\<close>

definition MatchesIdentity :: "UBlueprintEventNodeSpawner \<Rightarrow> UEdGraphNode \<Rightarrow> bool" where
  "MatchesIdentity sp node \<longleftrightarrow>
     IsEventClass (GetClass node) \<and>
     (case EventFunc sp of
        None \<Rightarrow> CustomEventName sp \<noteq> NAME_None \<and> CustomFunctionName node = CustomEventName sp
      | Some f \<Rightarrow> bOverrideFunction node \<and> MemberName (EventReference node) = FunctionFName f \<and>
                  MemberParent (EventReference node) = Some (AuthoritativeClass (OwnerClass f)))"

definition NodeMatches :: "UBlueprintEventNodeSpawner \<Rightarrow> UEdGraph \<Rightarrow> node_id \<Rightarrow> bool" where
  "NodeMatches sp g n \<longleftrightarrow> n < length (Objects g) \<and> MatchesIdentity sp (Objects g ! n)"

text \<open>
  The identity has a variant set: a function, or a custom name.
\<close>

definition HasVariant :: "UBlueprintEventNodeSpawner \<Rightarrow> bool" where
  "HasVariant sp \<longleftrightarrow> EventFunc sp \<noteq> None \<or> CustomEventName sp \<noteq> NAME_None"

text \<open>
  The invariant the callers keep ("only one node is allowed per event, per blueprint"): at most
  one node of the blueprint carries the identity's mark.
\<close>

definition AtMostOneMatch :: "UBlueprintEventNodeSpawner \<Rightarrow> UEdGraph \<Rightarrow> bool" where
  "AtMostOneMatch sp g \<longleftrightarrow>
     list_all (\<lambda>a. list_all (\<lambda>b. NodeMatches sp g a \<and> NodeMatches sp g b \<longrightarrow> a = b)
                       (BlueprintNodes g))
       (BlueprintNodes g)"

text \<open>
  No ghost node that carries the identity's mark lies in a graph of the blueprint other than
  the parent graph.
\<close>

definition GhostMatchesInParent :: "UBlueprintEventNodeSpawner \<Rightarrow> UEdGraph \<Rightarrow> bool" where
  "GhostMatchesInParent sp g \<longleftrightarrow>
     list_all (\<lambda>n. \<not> (NodeMatches sp g n \<and> IsAutomaticallyPlacedGhostNode g n))
       (EarlierGraphNodes g @ LaterGraphNodes g)"

subsection \<open>The spawn of Invoke and the customization hook\<close>

text \<open>
  The spawn of \<^verbatim>\<open>Invoke\<close>, with its delegate: the address and the node
  it creates, and the graph it leaves.
\<close>

definition SpawnEventNode :: "UBlueprintEventNodeSpawner \<Rightarrow> UEdGraph \<Rightarrow> int \<times> int \<Rightarrow> node_id \<times> UEdGraph" where
  "SpawnEventNode sp g Location =
     SpawnNode (NodeClass sp) g Location
       (\<lambda>NewNode bIsTemplateNode.
          PostSpawnLambda NewNode bIsTemplateNode (EventFunc sp) (GetEventName sp)
            (CustomizeNodeDelegate sp))"

definition SpawnedNode :: "UBlueprintEventNodeSpawner \<Rightarrow> UEdGraph \<Rightarrow> int \<times> int \<Rightarrow> UEdGraphNode" where
  "SpawnedNode sp g Location =
     (PostSpawnLambda (NewObject (EventClass (NodeClass sp))) (bTemplateOuter g) (EventFunc sp)
        (GetEventName sp) (CustomizeNodeDelegate sp))\<lparr>NodePos := Location\<rparr>"

definition AfterSpawn :: "UBlueprintEventNodeSpawner \<Rightarrow> UEdGraph \<Rightarrow> int \<times> int \<Rightarrow> UEdGraph" where
  "AfterSpawn sp g Location =
     g\<lparr>Objects := Objects g @ [SpawnedNode sp g Location], Nodes := Nodes g @ [length (Objects g)]\<rparr>"

text \<open>The customization hook leaves a live node live.\<close>

definition HookKeepsLive :: "UBlueprintEventNodeSpawner \<Rightarrow> bool" where
  "HookKeepsLive sp \<longleftrightarrow>
     (\<forall>node b. \<not> bAutoPlacedGhost node \<longrightarrow>
        \<not> bAutoPlacedGhost (ExecuteIfBound (CustomizeNodeDelegate sp) node b))"

text \<open>The customization hook leaves the identity's mark on the node.\<close>

definition HookKeepsMatch :: "UBlueprintEventNodeSpawner \<Rightarrow> bool" where
  "HookKeepsMatch sp \<longleftrightarrow>
     (\<forall>node b. MatchesIdentity sp node \<longrightarrow>
        MatchesIdentity sp (ExecuteIfBound (CustomizeNodeDelegate sp) node b))"

section \<open>Example graphs and spawners\<close>

text \<open>
  A node that is neither an override nor placed anywhere in particular, and a pin with the
  given links.
\<close>

definition ExampleNode :: "node_class \<Rightarrow> bool \<Rightarrow> FName \<Rightarrow> UEdGraphPin list \<Rightarrow> UEdGraphNode" where
  "ExampleNode c ghost custom pins =
     \<lparr>GetClass = c, bAutoPlacedGhost = ghost, Pins = pins, bOverrideFunction = False,
      EventReference = \<lparr>MemberParent = None, MemberName = NAME_None\<rparr>,
      CustomFunctionName = custom, NodePos = (0, 0)\<rparr>"

definition MakePin :: "pin_ref list \<Rightarrow> UEdGraphPin" where
  "MakePin ls = \<lparr>LinkedTo = ls\<rparr>"

text \<open>
  A function \<^verbatim>\<open>Jump\<close> of a class whose authoritative class is class 7.
\<close>

definition JumpFunction :: UFunction where
  "JumpFunction = \<lparr>FunctionFName = Name ''Jump'', OwnerClass = \<lparr>AuthoritativeClass = 7\<rparr>\<rparr>"

text \<open>
  A function \<^verbatim>\<open>Foo\<close> of the same class, function sub-graphs named \<^verbatim>\<open>Foo\<close> (with the nodes
  given) and \<^verbatim>\<open>Bar\<close> (with the entry node 2), and a blueprint with the function sub-graphs
  given. Its store holds the function entries 0, 2 and 4 and the plain node 5; its parent graph
  holds a custom event \<^verbatim>\<open>Foo\<close> (node 1) and an override of the function \<^verbatim>\<open>Foo\<close> (node 3).
  The walk over the blueprint reaches the function sub-graphs after the parent graph.
\<close>

definition FooFunction :: UFunction where
  "FooFunction = \<lparr>FunctionFName = Name ''Foo'', OwnerClass = \<lparr>AuthoritativeClass = 7\<rparr>\<rparr>"

definition FooGraph :: "node_id list \<Rightarrow> UFunctionGraph" where
  "FooGraph ns = \<lparr>GraphFName = Name ''Foo'', GraphNodes = ns\<rparr>"

definition BarGraph :: UFunctionGraph where
  "BarGraph = \<lparr>GraphFName = Name ''Bar'', GraphNodes = [2]\<rparr>"

definition ShadowedGraph :: "UFunctionGraph option list \<Rightarrow> UEdGraph" where
  "ShadowedGraph fgs =
     \<lparr>Objects = [ExampleNode K2Node_FunctionEntry False NAME_None [],
                 ExampleNode (EventClass K2Node_CustomEvent) False (Name ''Foo'') [],
                 ExampleNode K2Node_FunctionEntry False NAME_None [],
                 \<lparr>GetClass = EventClass K2Node_Event, bAutoPlacedGhost = False, Pins = [],
                   bOverrideFunction = True,
                   EventReference = \<lparr>MemberParent = Some 7, MemberName = Name ''Foo''\<rparr>,
                   CustomFunctionName = NAME_None, NodePos = (0, 0)\<rparr>,
                 ExampleNode K2Node_FunctionEntry False NAME_None [],
                 ExampleNode K2Node_Other False NAME_None []],
      Nodes = [1, 3], EarlierGraphNodes = [],
      LaterGraphNodes = concat (map (\<lambda>F. case F of None \<Rightarrow> [] | Some G \<Rightarrow> GraphNodes G) fgs),
      FunctionGraphs = fgs, bTemplateOuter = False\<rparr>"

definition EmptyGraph :: UEdGraph where
  "EmptyGraph =
     \<lparr>Objects = [], Nodes = [], EarlierGraphNodes = [], LaterGraphNodes = [],
      FunctionGraphs = [], bTemplateOuter = False\<rparr>"

text \<open>A chain of three ghost nodes 0 - 1 - 2, linked in both directions, and a live node 3 linked to the last one.\<close>

definition ChainGraph :: UEdGraph where
  "ChainGraph =
     \<lparr>Objects = [ExampleNode (EventClass K2Node_Event) True NAME_None [MakePin [(1, 0)]],
                 ExampleNode K2Node_Other True NAME_None [MakePin [(0, 0)], MakePin [(2, 0)]],
                 ExampleNode K2Node_Other True NAME_None [MakePin [(1, 1), (3, 0)]],
                 ExampleNode K2Node_Other False NAME_None [MakePin [(2, 0)]]],
      Nodes = [0, 1, 2, 3], EarlierGraphNodes = [], LaterGraphNodes = [], FunctionGraphs = [],
      bTemplateOuter = False\<rparr>"

text \<open>
  Three ghost nodes of one pin each, every one linked to both others; and the graph that the
  cascade started at node 0 has reached when the loop over the copy of the links of pin
  \<open>(0, 0)\<close> comes to the second entry of the copy.
\<close>

definition TriangleGraph :: UEdGraph where
  "TriangleGraph =
     \<lparr>Objects = [ExampleNode (EventClass K2Node_Event) True NAME_None [MakePin [(1, 0), (2, 0)]],
                 ExampleNode K2Node_Other True NAME_None [MakePin [(0, 0), (2, 0)]],
                 ExampleNode K2Node_Other True NAME_None [MakePin [(0, 0), (1, 0)]]],
      Nodes = [0, 1, 2], EarlierGraphNodes = [], LaterGraphNodes = [], FunctionGraphs = [],
      bTemplateOuter = False\<rparr>"

definition TriangleGraphAtSecondEntry :: UEdGraph where
  "TriangleGraphAtSecondEntry =
     RemoveGhostNodes (GetOwningNode (1, 0)) (BreakLinkTo TriangleGraph (1, 0) (0, 0))"



text \<open>
  A function sub-graph \<^verbatim>\<open>Foo\<close> whose entry node is a ghost, beside a ghost custom event
  \<^verbatim>\<open>Foo\<close> in the parent graph.
\<close>

definition GhostEntryGraph :: UEdGraph where
  "GhostEntryGraph =
     \<lparr>Objects = [ExampleNode K2Node_FunctionEntry True NAME_None [],
                 ExampleNode (EventClass K2Node_CustomEvent) True (Name ''Foo'') []],
      Nodes = [1], EarlierGraphNodes = [], LaterGraphNodes = [0],
      FunctionGraphs = [Some (FooGraph [0])], bTemplateOuter = False\<rparr>"

text \<open>
  A ghost override of \<^verbatim>\<open>Jump\<close> (node 0) linked to a ghost neighbour (node 1), both in the
  parent graph, in a blueprint with a live custom event \<^verbatim>\<open>Tick\<close> (node 2) in an earlier graph
  and an empty function sub-graph \<^verbatim>\<open>Foo\<close>. And the same two ghosts as nodes of an earlier
  graph of the blueprint, the parent graph being empty.
\<close>

definition GhostOverrideObjects :: "UEdGraphNode list" where
  "GhostOverrideObjects =
     [\<lparr>GetClass = EventClass K2Node_Event, bAutoPlacedGhost = True,
        Pins = [MakePin [(1, 0)]], bOverrideFunction = True,
        EventReference = \<lparr>MemberParent = Some 7, MemberName = Name ''Jump''\<rparr>,
        CustomFunctionName = NAME_None, NodePos = (0, 0)\<rparr>,
      ExampleNode K2Node_Other True NAME_None [MakePin [(0, 0)]],
      ExampleNode (EventClass K2Node_CustomEvent) False (Name ''Tick'') []]"

definition GhostOverrideGraph :: UEdGraph where
  "GhostOverrideGraph =
     \<lparr>Objects = GhostOverrideObjects,
      Nodes = [0, 1], EarlierGraphNodes = [2], LaterGraphNodes = [],
      FunctionGraphs = [None, Some (FooGraph [])], bTemplateOuter = False\<rparr>"

definition GhostElsewhereGraph :: UEdGraph where
  "GhostElsewhereGraph =
     \<lparr>Objects = GhostOverrideObjects,
      Nodes = [], EarlierGraphNodes = [2, 0, 1], LaterGraphNodes = [],
      FunctionGraphs = [], bTemplateOuter = False\<rparr>"

text \<open>
  An empty template outer; two unlinked ghost custom events \<^verbatim>\<open>Jump\<close>; a
  spawner whose hook renames the new node.
\<close>

definition TemplateGraph :: UEdGraph where
  "TemplateGraph =
     \<lparr>Objects = [], Nodes = [], EarlierGraphNodes = [], LaterGraphNodes = [],
      FunctionGraphs = [], bTemplateOuter = True\<rparr>"

definition TwoGhostsGraph :: UEdGraph where
  "TwoGhostsGraph =
     \<lparr>Objects = [ExampleNode (EventClass K2Node_CustomEvent) True (Name ''Jump'') [],
                 ExampleNode (EventClass K2Node_CustomEvent) True (Name ''Jump'') []],
      Nodes = [0, 1], EarlierGraphNodes = [], LaterGraphNodes = [], FunctionGraphs = [],
      bTemplateOuter = False\<rparr>"

definition RenamingSpawner :: UBlueprintEventNodeSpawner where
  "RenamingSpawner =
     \<lparr>NodeClass = K2Node_CustomEvent, EventFunc = None, CustomEventName = Name ''Jump'',
      CustomizeNodeDelegate = Some (\<lambda>NewNode bIsTemplateNode. NewNode\<lparr>CustomFunctionName := Name ''Renamed''\<rparr>)\<rparr>"

section \<open>Properties\<close>

subsection \<open>Reading and writing links\<close>

lemma GetLinkedTo_invalid: "\<not> ValidPin g p \<Longrightarrow> GetLinkedTo g p = []"
  by (simp add: GetLinkedTo_def ValidPin_def)

lemma Nodes_SetLinkedTo [simp]: "Nodes (SetLinkedTo g p ls) = Nodes g"
  and EarlierGraphNodes_SetLinkedTo [simp]:
    "EarlierGraphNodes (SetLinkedTo g p ls) = EarlierGraphNodes g"
  and LaterGraphNodes_SetLinkedTo [simp]:
    "LaterGraphNodes (SetLinkedTo g p ls) = LaterGraphNodes g"
  and FunctionGraphs_SetLinkedTo [simp]: "FunctionGraphs (SetLinkedTo g p ls) = FunctionGraphs g"
  and bTemplateOuter_SetLinkedTo [simp]: "bTemplateOuter (SetLinkedTo g p ls) = bTemplateOuter g"
  and length_Objects_SetLinkedTo [simp]: "length (Objects (SetLinkedTo g p ls)) = length (Objects g)"
  by (simp_all add: SetLinkedTo_def)

lemma length_NodePins_SetLinkedTo [simp]:
  "length (NodePins (SetLinkedTo g p ls) n) = length (NodePins g n)"
  by (cases "n = fst p") (auto simp: SetLinkedTo_def NodePins_def)

lemma ValidPin_SetLinkedTo [simp]: "ValidPin (SetLinkedTo g p ls) q = ValidPin g q"
  by (simp add: ValidPin_def)

lemma IsGhost_SetLinkedTo [simp]:
  "IsAutomaticallyPlacedGhostNode (SetLinkedTo g p ls) n = IsAutomaticallyPlacedGhostNode g n"
  by (cases "n = fst p") (auto simp: SetLinkedTo_def IsAutomaticallyPlacedGhostNode_def NodePins_def)

lemma GetLinkedTo_SetLinkedTo:
  "GetLinkedTo (SetLinkedTo g p ls) q = (if q = p \<and> ValidPin g p then ls else GetLinkedTo g q)"
proof (cases "ValidPin g p")
  case False
  then show ?thesis by (simp add: SetLinkedTo_def ValidPin_def)
next
  case True
  then have n: "fst p < length (Objects g)"
    by (auto simp: ValidPin_def NodePins_def split: if_splits)
  show ?thesis
  proof (cases "fst q = fst p")
    case False
    then show ?thesis using True
      by (auto simp: SetLinkedTo_def GetLinkedTo_def NodePins_def ValidPin_def)
  next
    case same: True
    show ?thesis
    proof (cases "snd q = snd p")
      case True
      with same have "q = p" by (simp add: prod_eq_iff)
      then show ?thesis using \<open>ValidPin g p\<close> n
        by (simp add: SetLinkedTo_def GetLinkedTo_def NodePins_def ValidPin_def)
    next
      case False
      with same have "q \<noteq> p" by auto
      then show ?thesis using \<open>ValidPin g p\<close> n same False
        by (simp add: SetLinkedTo_def GetLinkedTo_def NodePins_def ValidPin_def)
    qed
  qed
qed

lemma GetLinkedTo_BreakLinkTo:
  "GetLinkedTo (BreakLinkTo g a b) q =
     (if q = a then removeAll b (GetLinkedTo g a)
      else if q = b then removeAll a (GetLinkedTo g b)
      else GetLinkedTo g q)"
  by (auto simp: BreakLinkTo_def Let_def GetLinkedTo_SetLinkedTo GetLinkedTo_invalid)

subsection \<open>The number of links\<close>

lemma sum_list_map_update:
  fixes f :: "'a \<Rightarrow> nat"
  assumes "i < length xs"
  shows "sum_list (map f (xs[i := x])) + f (xs ! i) = sum_list (map f xs) + f x"
  using assms
proof (induction xs arbitrary: i)
  case Nil then show ?case by simp
next
  case (Cons a xs)
  then show ?case by (cases i) auto
qed

lemma TotalLinks_SetLinkedTo:
  assumes "ValidPin g p"
  shows "TotalLinks (SetLinkedTo g p ls) + length (GetLinkedTo g p) = TotalLinks g + length ls"
proof -
  from assms have n: "fst p < length (Objects g)" and i: "snd p < length (Pins (Objects g ! fst p))"
    by (auto simp: ValidPin_def NodePins_def split: if_splits)
  let ?nd = "Objects g ! fst p"
  let ?nd' = "?nd\<lparr>Pins := (Pins ?nd)[snd p := \<lparr>LinkedTo = ls\<rparr>]\<rparr>"
  have a: "NodeLinks ?nd' + length (GetLinkedTo g p) = NodeLinks ?nd + length ls"
    using sum_list_map_update[OF i, of PinLinks "\<lparr>LinkedTo = ls\<rparr>"] n i
    by (simp add: NodeLinks_def GetLinkedTo_def NodePins_def PinLinks_def)
  have b: "TotalLinks (SetLinkedTo g p ls) + NodeLinks ?nd = TotalLinks g + NodeLinks ?nd'"
    using sum_list_map_update[OF n, of NodeLinks ?nd'] assms
    by (simp add: TotalLinks_def SetLinkedTo_def ValidPin_def)
  from a b show ?thesis by arith
qed

lemma TotalLinks_SetLinkedTo_le:
  "length ls \<le> length (GetLinkedTo g p) \<Longrightarrow> TotalLinks (SetLinkedTo g p ls) \<le> TotalLinks g"
  using TotalLinks_SetLinkedTo[of g p ls]
  by (cases "ValidPin g p") (auto simp: SetLinkedTo_def ValidPin_def)

lemma TotalLinks_BreakLinkTo_le: "TotalLinks (BreakLinkTo g a b) \<le> TotalLinks g"
proof -
  let ?g1 = "SetLinkedTo g a (removeAll b (GetLinkedTo g a))"
  have "TotalLinks ?g1 \<le> TotalLinks g"
    by (rule TotalLinks_SetLinkedTo_le) (simp add: length_removeAll_less_eq)
  moreover have "TotalLinks (SetLinkedTo ?g1 b (removeAll a (GetLinkedTo ?g1 b))) \<le> TotalLinks ?g1"
    by (rule TotalLinks_SetLinkedTo_le) (simp add: length_removeAll_less_eq)
  ultimately show ?thesis by (simp add: BreakLinkTo_def Let_def)
qed

lemma TotalLinks_BreakLinkTo_less:
  assumes "a \<in> set (GetLinkedTo g b)"
  shows "TotalLinks (BreakLinkTo g a b) < TotalLinks g"
proof -
  let ?g1 = "SetLinkedTo g a (removeAll b (GetLinkedTo g a))"
  let ?g2 = "SetLinkedTo ?g1 b (removeAll a (GetLinkedTo ?g1 b))"
  have 1: "TotalLinks ?g1 \<le> TotalLinks g"
    by (rule TotalLinks_SetLinkedTo_le) (simp add: length_removeAll_less_eq)
  have 2: "TotalLinks ?g2 \<le> TotalLinks ?g1"
    by (rule TotalLinks_SetLinkedTo_le) (simp add: length_removeAll_less_eq)
  have vb: "ValidPin g b" using assms GetLinkedTo_invalid by fastforce
  have "TotalLinks ?g2 < TotalLinks g"
  proof (cases "a = b")
    case True
    have "length (removeAll b (GetLinkedTo g a)) < length (GetLinkedTo g a)"
      using assms True by (simp add: length_removeAll_less)
    with TotalLinks_SetLinkedTo[of g a "removeAll b (GetLinkedTo g a)"] vb True
    have "TotalLinks ?g1 < TotalLinks g" by simp
    with 2 show ?thesis by simp
  next
    case False
    then have in1: "a \<in> set (GetLinkedTo ?g1 b)"
      using assms by (simp add: GetLinkedTo_SetLinkedTo)
    have v: "ValidPin ?g1 b" using vb by simp
    have "length (removeAll a (GetLinkedTo ?g1 b)) < length (GetLinkedTo ?g1 b)"
      using in1 by (rule length_removeAll_less)
    with TotalLinks_SetLinkedTo[OF v, of "removeAll a (GetLinkedTo ?g1 b)"]
    have "TotalLinks ?g2 < TotalLinks ?g1" by arith
    with 1 show ?thesis by simp
  qed
  then show ?thesis by (simp add: BreakLinkTo_def Let_def)
qed

lemma TotalLinks_RemoveNode [simp]: "TotalLinks (RemoveNode g n) = TotalLinks g"
  by (simp add: RemoveNode_def TotalLinks_def)

lemma TotalLinks_fold_le:
  assumes "\<And>x h. TotalLinks (f x h) \<le> TotalLinks h"
  shows "TotalLinks (fold f xs g) \<le> TotalLinks g"
proof (induction xs arbitrary: g)
  case Nil show ?case by simp
next
  case (Cons x xs)
  have "TotalLinks (fold f xs (f x g)) \<le> TotalLinks (f x g)" by (rule Cons.IH)
  also have "\<dots> \<le> TotalLinks g" by (rule assms)
  finally show ?case by simp
qed

lemma TotalLinks_BreakAllPinLinks_le: "TotalLinks (BreakAllPinLinks g p) \<le> TotalLinks g"
  unfolding BreakAllPinLinks_def by (rule TotalLinks_fold_le) (rule TotalLinks_BreakLinkTo_le)

lemma TotalLinks_BreakAllNodeLinks_le: "TotalLinks (BreakAllNodeLinks g n) \<le> TotalLinks g"
  unfolding BreakAllNodeLinks_def by (rule TotalLinks_fold_le) (rule TotalLinks_BreakAllPinLinks_le)

subsection \<open>Termination of the cascade\<close>

lemma RemoveGhostNodes_TotalLinks_partial:
  "RemoveGhostNodes_RemoveGhostNodes_Pins_RemoveGhostNodes_LinkedTo_dom (Inl (InNode, g)) \<Longrightarrow>
     TotalLinks (RemoveGhostNodes InNode g) \<le> TotalLinks g"
  "RemoveGhostNodes_RemoveGhostNodes_Pins_RemoveGhostNodes_LinkedTo_dom (Inr (Inl (n, is, g1))) \<Longrightarrow>
     TotalLinks (RemoveGhostNodes_Pins n is g1) \<le> TotalLinks g1"
  "RemoveGhostNodes_RemoveGhostNodes_Pins_RemoveGhostNodes_LinkedTo_dom (Inr (Inr (Pin, qs, g2))) \<Longrightarrow>
     TotalLinks (RemoveGhostNodes_LinkedTo Pin qs g2) \<le> TotalLinks g2"
proof (induction InNode g and n "is" g1 and Pin qs g2
    rule: RemoveGhostNodes_RemoveGhostNodes_Pins_RemoveGhostNodes_LinkedTo.pinduct)
  case (1 g)
  then show ?case by (simp add: RemoveGhostNodes.psimps)
next
  case (2 n g)
  show ?case
  proof (cases "IsAutomaticallyPlacedGhostNode g n")
    case True
    have "TotalLinks (BreakAllNodeLinks (RemoveGhostNodes_Pins n [0..<length (NodePins g n)] g) n)
           \<le> TotalLinks (RemoveGhostNodes_Pins n [0..<length (NodePins g n)] g)"
      by (rule TotalLinks_BreakAllNodeLinks_le)
    also have "\<dots> \<le> TotalLinks g" using 2 True by simp
    finally show ?thesis using 2(1) True by (simp add: RemoveGhostNodes.psimps)
  next
    case False
    then show ?thesis using 2(1) by (simp add: RemoveGhostNodes.psimps)
  qed
next
  case (3 n g)
  then show ?case by (simp add: RemoveGhostNodes_Pins.psimps)
next
  case (4 n i rest g)
  then show ?case by (simp add: RemoveGhostNodes_Pins.psimps)
next
  case (5 Pin g)
  then show ?case by (simp add: RemoveGhostNodes_LinkedTo.psimps)
next
  case (6 Pin OtherPin rest g)
  have "TotalLinks (BreakLinkTo g OtherPin Pin) \<le> TotalLinks g"
    by (rule TotalLinks_BreakLinkTo_le)
  with 6 show ?case by (simp add: RemoveGhostNodes_LinkedTo.psimps)
qed

lemma RemoveGhostNodes_wellfounded:
  "All RemoveGhostNodes_RemoveGhostNodes_Pins_RemoveGhostNodes_LinkedTo_dom"
proof (relation "measures [CascadeMeasure1, CascadeMeasure2, CascadeMeasure3]", goal_cases)
  case 1
  show ?case by simp
next
  case (2 n g)
  show ?case by (simp add: CascadeMeasure1_def CascadeMeasure2_def)
next
  case (3 n i rest g)
  show ?case by (simp add: CascadeMeasure1_def CascadeMeasure2_def split: list.splits)
next
  case (4 n i rest g)
  from RemoveGhostNodes_TotalLinks_partial(3)[OF 4]
  show ?case by (auto simp: CascadeMeasure1_def CascadeMeasure2_def CascadeMeasure3_def)
next
  case (5 Pin OtherPin rest g)
  show ?case
  proof (cases "OtherPin \<in> set (GetLinkedTo g Pin)")
    case True
    then show ?thesis using TotalLinks_BreakLinkTo_less[of OtherPin g Pin]
      by (simp add: CascadeMeasure1_def)
  next
    case False
    then show ?thesis using TotalLinks_BreakLinkTo_le[of g OtherPin Pin]
      by (auto simp: CascadeMeasure1_def CascadeMeasure2_def)
  qed
next
  case (6 Pin OtherPin rest g)
  let ?g' = "RemoveGhostNodes (GetOwningNode OtherPin) (BreakLinkTo g OtherPin Pin)"
  have le: "TotalLinks ?g' \<le> TotalLinks (BreakLinkTo g OtherPin Pin)"
    by (rule RemoveGhostNodes_TotalLinks_partial(1)[OF 6])
  show ?case
  proof (cases "OtherPin \<in> set (GetLinkedTo g Pin)")
    case True
    then show ?thesis using TotalLinks_BreakLinkTo_less[of OtherPin g Pin] le
      by (simp add: CascadeMeasure1_def)
  next
    case False
    then show ?thesis using TotalLinks_BreakLinkTo_le[of g OtherPin Pin] le
      by (auto simp: CascadeMeasure1_def CascadeMeasure2_def CascadeMeasure3_def split: list.splits)
  qed
qed

termination RemoveGhostNodes
  by (rule RemoveGhostNodes_wellfounded)

declare RemoveGhostNodes.simps [simp del]

subsection \<open>The function sub-graph shortcut\<close>

lemma FindFunctionGraph_Some:
  "FindFunctionGraph EventName gs = Some FuncGraph \<Longrightarrow>
     Some FuncGraph \<in> set gs \<and> GraphFName FuncGraph = EventName"
  by (induction EventName gs rule: FindFunctionGraph.induct) (auto split: if_splits)

lemma FindFunctionGraph_first:
  assumes "\<forall>F. Some F \<in> set Preceding \<longrightarrow> GraphFName F \<noteq> EventName"
      and "GraphFName FuncGraph = EventName"
  shows "FindFunctionGraph EventName (Preceding @ Some FuncGraph # Following) = Some FuncGraph"
  using assms
proof (induction Preceding)
  case Nil
  then show ?case by simp
next
  case (Cons x rest)
  then show ?case by (cases x) auto
qed

lemma FindFunctionGraph_None:
  "(FindFunctionGraph EventName gs = None) =
     (\<forall>F. Some F \<in> set gs \<longrightarrow> GraphFName F \<noteq> EventName)"
  by (induction EventName gs rule: FindFunctionGraph.induct) auto

lemma Invoke_function_graph:
  assumes "FindFunctionGraph (GetEventName sp) (FunctionGraphs g) = Some FuncGraph"
  shows "Invoke sp (Some g) Location =
           (case GetFunctionEntryNodes g FuncGraph of e # _ \<Rightarrow> Inr (Some e, g) | [] \<Rightarrow> Inr (None, g))"
  using assms by (cases "EventFunc sp") (simp_all add: Invoke_def Let_def IsForCustomEvent_def)

lemma Invoke_first_function_graph:
  assumes "FunctionGraphs g = Preceding @ Some FuncGraph # Following"
      and "\<forall>F. Some F \<in> set Preceding \<longrightarrow> GraphFName F \<noteq> GraphFName FuncGraph"
      and "GraphFName FuncGraph =
             (case EventFunc sp of None \<Rightarrow> CustomEventName sp | Some f \<Rightarrow> FunctionFName f)"
  shows "Invoke sp (Some g) Location =
           (case GetFunctionEntryNodes g FuncGraph of e # _ \<Rightarrow> Inr (Some e, g) | [] \<Rightarrow> Inr (None, g))"
proof -
  have "GraphFName FuncGraph = GetEventName sp"
    using assms(3) by (simp add: GetEventName_def)
  with assms(2) have "FindFunctionGraph (GetEventName sp) (Preceding @ Some FuncGraph # Following)
                        = Some FuncGraph"
    by (simp add: FindFunctionGraph_first)
  then have "FindFunctionGraph (GetEventName sp) (FunctionGraphs g) = Some FuncGraph"
    using assms(1) by simp
  then show ?thesis by (rule Invoke_function_graph)
qed

text \<open>
  Claim C2 (function-name shadowing), as stated, fails on a blueprint with two function
  sub-graphs of the name: the loop over \<^verbatim>\<open>FunctionGraphs\<close> returns at the first of them. Here
  the blueprint contains a sub-graph \<^verbatim>\<open>Foo\<close> with the entry node 0, but an earlier sub-graph
  \<^verbatim>\<open>Foo\<close> has no entry node, and \<^verbatim>\<open>Invoke\<close> returns the null pointer.
\<close>

theorem Invoke_second_graph_with_entry_counterexample:
  "Some (FooGraph [0]) \<in> set (FunctionGraphs (ShadowedGraph [Some (FooGraph []), Some (FooGraph [0])])) \<and>
   GraphFName (FooGraph [0]) = CustomEventName (Create_CustomEvent K2Node_CustomEvent (Name ''Foo'')) \<and>
   GetFunctionEntryNodes (ShadowedGraph [Some (FooGraph []), Some (FooGraph [0])]) (FooGraph [0]) = [0] \<and>
   Invoke (Create_CustomEvent K2Node_CustomEvent (Name ''Foo''))
       (Some (ShadowedGraph [Some (FooGraph []), Some (FooGraph [0])])) (3, 4)
     = Inr (None, ShadowedGraph [Some (FooGraph []), Some (FooGraph [0])])"
  by (simp add: Invoke_def Let_def IsForCustomEvent_def GetEventName_def Create_CustomEvent_def
      ShadowedGraph_def FooGraph_def GetFunctionEntryNodes_def ExampleNode_def)

text \<open>
  Claim C2, amended. The resolved name of the identity is its custom name when it has no
  function and the name of its function otherwise. When the first function sub-graph of the
  blueprint that bears the resolved name (null entries and sub-graphs of other names may come
  before it) has an entry node, \<^verbatim>\<open>Invoke\<close> returns the first entry node of that sub-graph and
  leaves the graph as it was: no node is created. Nothing is assumed about the event nodes of
  the blueprint, so a matching event node elsewhere makes no difference.
\<close>

theorem Invoke_function_name_shadowing:
  assumes "FunctionGraphs g = Preceding @ Some FuncGraph # Following"
      and "\<forall>F. Some F \<in> set Preceding \<longrightarrow> GraphFName F \<noteq> GraphFName FuncGraph"
      and "GraphFName FuncGraph =
             (case EventFunc sp of None \<Rightarrow> CustomEventName sp | Some f \<Rightarrow> FunctionFName f)"
      and "GetFunctionEntryNodes g FuncGraph = e # es"
  shows "Invoke sp (Some g) Location = Inr (Some e, g)"
  using Invoke_first_function_graph[OF assms(1,2,3), of Location] assms(4) by simp

text \<open>
  Claim C3 (missing entry point), as stated, fails on a blueprint with two function sub-graphs
  of the name, for the same reason. Here the blueprint contains a sub-graph \<^verbatim>\<open>Foo\<close> without
  entry node, but an earlier sub-graph \<^verbatim>\<open>Foo\<close> has the entry node 0, and \<^verbatim>\<open>Invoke\<close> returns
  that node, not the null pointer.
\<close>

theorem Invoke_second_graph_without_entry_counterexample:
  "Some (FooGraph []) \<in> set (FunctionGraphs (ShadowedGraph [Some (FooGraph [0]), Some (FooGraph [])])) \<and>
   GraphFName (FooGraph []) = CustomEventName (Create_CustomEvent K2Node_CustomEvent (Name ''Foo'')) \<and>
   GetFunctionEntryNodes (ShadowedGraph [Some (FooGraph [0]), Some (FooGraph [])]) (FooGraph []) = [] \<and>
   Invoke (Create_CustomEvent K2Node_CustomEvent (Name ''Foo''))
       (Some (ShadowedGraph [Some (FooGraph [0]), Some (FooGraph [])])) (3, 4)
     = Inr (Some 0, ShadowedGraph [Some (FooGraph [0]), Some (FooGraph [])])"
  by (simp add: Invoke_def Let_def IsForCustomEvent_def GetEventName_def Create_CustomEvent_def
      ShadowedGraph_def FooGraph_def GetFunctionEntryNodes_def ExampleNode_def)

text \<open>
  Claim C3, amended. When the first function sub-graph of the blueprint that bears the resolved
  name of the identity has no entry node, \<^verbatim>\<open>Invoke\<close> returns the null pointer: the result is a
  regular return (\<open>Inr\<close>, no assertion), and the graph is unchanged, so no node was created.
\<close>

theorem Invoke_missing_entry_point:
  assumes "FunctionGraphs g = Preceding @ Some FuncGraph # Following"
      and "\<forall>F. Some F \<in> set Preceding \<longrightarrow> GraphFName F \<noteq> GraphFName FuncGraph"
      and "GraphFName FuncGraph =
             (case EventFunc sp of None \<Rightarrow> CustomEventName sp | Some f \<Rightarrow> FunctionFName f)"
      and "GetFunctionEntryNodes g FuncGraph = []"
  shows "Invoke sp (Some g) Location = Inr (None, g)"
  using Invoke_first_function_graph[OF assms(1,2,3), of Location] assms(4) by simp

subsection \<open>The spawner signature\<close>

text \<open>
  Claim C8 (derived signature). For a function-backed identity the signature of the spawner
  holds the function object itself; for a custom identity (no function, custom name \<open>s\<close>) it
  holds the value \<open>s\<close> under the key \<^verbatim>\<open>CustomEvent\<close>. (A spawner with neither function nor
  custom name has no identity variant set; it takes the branch of the sub-object.)
\<close>

theorem GetSpawnerSignature_keys:
  "(EventFunc sp = Some f \<longrightarrow>
      GetSpawnerSignature sp = \<lparr>SigNodeClass = NodeClass sp, SigEntries = [SubObject (Some f)]\<rparr>) \<and>
   (EventFunc sp = None \<and> CustomEventName sp = Name s \<longrightarrow>
      GetSpawnerSignature sp =
        \<lparr>SigNodeClass = NodeClass sp, SigEntries = [NamedValue (Name ''CustomEvent'') s]\<rparr>)"
  by (simp add: GetSpawnerSignature_def IsForCustomEvent_def IsNone_def AddNamedValue_def
      AddSubObject_def CustomSignatureKey_def)

subsection \<open>The assertions of Invoke\<close>

lemma Invoke_null: "Invoke sp None Location = Inl AssertionFailed"
  by (simp add: Invoke_def)

lemma Invoke_no_function_graph:
  assumes "FindFunctionGraph (GetEventName sp) (FunctionGraphs g) = None"
  shows "Invoke sp (Some g) Location =
           (case (if \<not> bTemplateOuter g then FindPreExistingEvent sp g else None) of
              None \<Rightarrow> Inr (Some (fst (SpawnEventNode sp g Location)), snd (SpawnEventNode sp g Location))
            | Some e \<Rightarrow>
                if IsAutomaticallyPlacedGhostNode g e
                then Inr (Some (fst (SpawnEventNode sp (RemoveGhostNodes (Some e) g) Location)),
                          snd (SpawnEventNode sp (RemoveGhostNodes (Some e) g) Location))
                else Inr (Some e, g))"
proof -
  have c: "\<not> (\<not> (IsForCustomEvent sp \<or> EventFunc sp \<noteq> None))"
    by (cases "EventFunc sp") (simp_all add: IsForCustomEvent_def)
  show ?thesis
  proof (cases "if \<not> bTemplateOuter g then FindPreExistingEvent sp g else None")
    case None
    then show ?thesis
      unfolding Invoke_def SpawnEventNode_def Let_def option.case if_not_P[OF c] assms
      by (simp add: split_beta)
  next
    case (Some e)
    then show ?thesis
      unfolding Invoke_def SpawnEventNode_def Let_def option.case if_not_P[OF c] assms
      by (simp add: split_beta)
  qed
qed

text \<open>
  Claim C9, amended: \<^verbatim>\<open>Invoke\<close> fails its assertion exactly when the graph is null. A null
  graph always triggers it; on a graph, no identity does.
\<close>

theorem Invoke_asserts_only_null_graph:
  "(Invoke sp ParentGraph Location = Inl AssertionFailed) = (ParentGraph = None)"
proof (cases ParentGraph)
  case None
  then show ?thesis by (simp add: Invoke_null)
next
  case (Some g)
  show ?thesis
  proof (cases "FindFunctionGraph (GetEventName sp) (FunctionGraphs g)")
    case None
    then show ?thesis using Some
      by (simp add: Invoke_no_function_graph split: option.split)
  next
    case (Some FuncGraph)
    then show ?thesis using \<open>ParentGraph = Some g\<close>
      by (simp add: Invoke_function_graph split: list.split)
  qed
qed

theorem Invoke_function_name_shadowing_witness:
  "FunctionGraphs (ShadowedGraph [None, Some BarGraph, Some (FooGraph [5, 0, 4]), Some (FooGraph [])])
     = [None, Some BarGraph] @ Some (FooGraph [5, 0, 4]) # [Some (FooGraph [])] \<and>
   GraphFName BarGraph \<noteq> GraphFName (FooGraph [5, 0, 4]) \<and>
   GraphFName (FooGraph [5, 0, 4]) = CustomEventName (Create_CustomEvent K2Node_CustomEvent (Name ''Foo'')) \<and>
   GraphFName (FooGraph [5, 0, 4]) = FunctionFName FooFunction \<and>
   GetFunctionEntryNodes
       (ShadowedGraph [None, Some BarGraph, Some (FooGraph [5, 0, 4]), Some (FooGraph [])])
       (FooGraph [5, 0, 4]) = [0, 4] \<and>
   FindPreExistingEvent (Create_CustomEvent K2Node_CustomEvent (Name ''Foo''))
       (ShadowedGraph [None, Some BarGraph, Some (FooGraph [5, 0, 4]), Some (FooGraph [])]) = Some 1 \<and>
   FindPreExistingEvent (Create_EventFunc FooFunction)
       (ShadowedGraph [None, Some BarGraph, Some (FooGraph [5, 0, 4]), Some (FooGraph [])]) = Some 3 \<and>
   Invoke (Create_CustomEvent K2Node_CustomEvent (Name ''Foo''))
       (Some (ShadowedGraph [None, Some BarGraph, Some (FooGraph [5, 0, 4]), Some (FooGraph [])])) (3, 4)
     = Inr (Some 0, ShadowedGraph [None, Some BarGraph, Some (FooGraph [5, 0, 4]), Some (FooGraph [])]) \<and>
   Invoke (Create_EventFunc FooFunction)
       (Some (ShadowedGraph [None, Some BarGraph, Some (FooGraph [5, 0, 4]), Some (FooGraph [])])) (3, 4)
     = Inr (Some 0, ShadowedGraph [None, Some BarGraph, Some (FooGraph [5, 0, 4]), Some (FooGraph [])])"
  using Invoke_function_name_shadowing[of
      "ShadowedGraph [None, Some BarGraph, Some (FooGraph [5, 0, 4]), Some (FooGraph [])]"
      "[None, Some BarGraph]" "FooGraph [5, 0, 4]" "[Some (FooGraph [])]"
      "Create_CustomEvent K2Node_CustomEvent (Name ''Foo'')" 0 "[4]" "(3, 4)"]
    Invoke_function_name_shadowing[of
      "ShadowedGraph [None, Some BarGraph, Some (FooGraph [5, 0, 4]), Some (FooGraph [])]"
      "[None, Some BarGraph]" "FooGraph [5, 0, 4]" "[Some (FooGraph [])]"
      "Create_EventFunc FooFunction" 0 "[4]" "(3, 4)"]
  by (simp add: Create_CustomEvent_def Create_EventFunc_def FooFunction_def ShadowedGraph_def
      FooGraph_def BarGraph_def GetFunctionEntryNodes_def ExampleNode_def FindPreExistingEvent_def
      FindCustomEventNode_def FindOverrideForFunction_def GetAllEventNodes_def BlueprintNodes_def
      IsEventNode_def)

theorem Invoke_missing_entry_point_witness:
  "FunctionGraphs (ShadowedGraph [None, Some BarGraph, Some (FooGraph [5]), Some (FooGraph [0])])
     = [None, Some BarGraph] @ Some (FooGraph [5]) # [Some (FooGraph [0])] \<and>
   GraphFName BarGraph \<noteq> GraphFName (FooGraph [5]) \<and>
   GraphFName (FooGraph [5]) = CustomEventName (Create_CustomEvent K2Node_CustomEvent (Name ''Foo'')) \<and>
   GraphFName (FooGraph [5]) = FunctionFName FooFunction \<and>
   GetFunctionEntryNodes
       (ShadowedGraph [None, Some BarGraph, Some (FooGraph [5]), Some (FooGraph [0])])
       (FooGraph [5]) = [] \<and>
   Invoke (Create_CustomEvent K2Node_CustomEvent (Name ''Foo''))
       (Some (ShadowedGraph [None, Some BarGraph, Some (FooGraph [5]), Some (FooGraph [0])])) (3, 4)
     = Inr (None, ShadowedGraph [None, Some BarGraph, Some (FooGraph [5]), Some (FooGraph [0])]) \<and>
   Invoke (Create_EventFunc FooFunction)
       (Some (ShadowedGraph [None, Some BarGraph, Some (FooGraph [5]), Some (FooGraph [0])])) (3, 4)
     = Inr (None, ShadowedGraph [None, Some BarGraph, Some (FooGraph [5]), Some (FooGraph [0])])"
  using Invoke_missing_entry_point[of
      "ShadowedGraph [None, Some BarGraph, Some (FooGraph [5]), Some (FooGraph [0])]"
      "[None, Some BarGraph]" "FooGraph [5]" "[Some (FooGraph [0])]"
      "Create_CustomEvent K2Node_CustomEvent (Name ''Foo'')" "(3, 4)"]
    Invoke_missing_entry_point[of
      "ShadowedGraph [None, Some BarGraph, Some (FooGraph [5]), Some (FooGraph [0])]"
      "[None, Some BarGraph]" "FooGraph [5]" "[Some (FooGraph [0])]"
      "Create_EventFunc FooFunction" "(3, 4)"]
  by (simp add: Create_CustomEvent_def Create_EventFunc_def FooFunction_def ShadowedGraph_def
      FooGraph_def BarGraph_def GetFunctionEntryNodes_def ExampleNode_def)

theorem GetSpawnerSignature_keys_witness:
  "GetSpawnerSignature (Create_EventFunc JumpFunction)
     = \<lparr>SigNodeClass = K2Node_Event, SigEntries = [SubObject (Some JumpFunction)]\<rparr> \<and>
   GetSpawnerSignature (Create_CustomEvent K2Node_CustomEvent (Name ''Jump''))
     = \<lparr>SigNodeClass = K2Node_CustomEvent,
        SigEntries = [NamedValue (Name ''CustomEvent'') ''Jump'']\<rparr>"
  using GetSpawnerSignature_keys[of "Create_EventFunc JumpFunction" JumpFunction "''x''"]
    GetSpawnerSignature_keys[of "Create_CustomEvent K2Node_CustomEvent (Name ''Jump'')" JumpFunction "''Jump''"]
  by (simp add: Create_EventFunc_def Create_CustomEvent_def)

text \<open>
  Claim C9 (precondition assertions), as stated, fails for the identity with no variant set: the
  \<^verbatim>\<open>check\<close> of \<^verbatim>\<open>Invoke\<close> on the identity reads
  \<^verbatim>\<open>bIsCustomEvent || (EventFunc != nullptr)\<close> with \<^verbatim>\<open>bIsCustomEvent\<close> being
  \<^verbatim>\<open>EventFunc == nullptr\<close>, so it passes for every spawner. A spawner with neither a
  function nor a custom name is what \<^verbatim>\<open>Create(NodeClass, NAME_None)\<close> builds (the
  "Add Custom Event..." entry); invoked on an empty graph it spawns a node.
\<close>

theorem Invoke_no_variant_counterexample:
  "EventFunc (Create_CustomEvent K2Node_CustomEvent NAME_None) = None \<and>
   CustomEventName (Create_CustomEvent K2Node_CustomEvent NAME_None) = NAME_None \<and>
   Invoke (Create_CustomEvent K2Node_CustomEvent NAME_None) (Some EmptyGraph) (3, 4)
     = Inr (Some 0,
         \<lparr>Objects = [(ExampleNode (EventClass K2Node_CustomEvent) False NAME_None [])\<lparr>NodePos := (3, 4)\<rparr>],
          Nodes = [0], EarlierGraphNodes = [], LaterGraphNodes = [], FunctionGraphs = [],
          bTemplateOuter = False\<rparr>)"
  by (simp add: Invoke_def Create_CustomEvent_def EmptyGraph_def Let_def IsForCustomEvent_def
      GetEventName_def FindPreExistingEvent_def FindCustomEventNode_def SpawnNode_def
      PostSpawnLambda_def ExecuteIfBound_def NewObject_def ExampleNode_def)

theorem Invoke_asserts_only_null_graph_witness:
  "Invoke (Create_CustomEvent K2Node_CustomEvent NAME_None) None (3, 4) = Inl AssertionFailed \<and>
   Invoke (Create_CustomEvent K2Node_CustomEvent NAME_None) (Some EmptyGraph) (3, 4) \<noteq> Inl AssertionFailed"
  using Invoke_asserts_only_null_graph[of "Create_CustomEvent K2Node_CustomEvent NAME_None" None "(3, 4)"]
    Invoke_asserts_only_null_graph[of "Create_CustomEvent K2Node_CustomEvent NAME_None" "Some EmptyGraph" "(3, 4)"]
  by simp

subsection \<open>The frame of the cascade\<close>

lemma SameNodeData_refl [simp]: "SameNodeData g g"
  by (simp add: SameNodeData_def)

lemma SameNodeData_trans: "SameNodeData g g1 \<Longrightarrow> SameNodeData g1 g2 \<Longrightarrow> SameNodeData g g2"
  by (simp add: SameNodeData_def)

lemma SameNodeData_length: "SameNodeData g g' \<Longrightarrow> length (Objects g') = length (Objects g)"
  unfolding SameNodeData_def by (metis length_map)

lemma SameNodeData_nth:
  assumes "SameNodeData g g'" and "n < length (Objects g)"
  shows "StripLinks (Objects g' ! n) = StripLinks (Objects g ! n)"
proof -
  have "map StripLinks (Objects g') ! n = map StripLinks (Objects g) ! n"
    using assms(1) by (simp add: SameNodeData_def)
  then show ?thesis using assms(2) SameNodeData_length[OF assms(1)] by simp
qed

lemma StripLinks_fields:
  assumes "StripLinks a = StripLinks b"
  shows "GetClass a = GetClass b" and "bAutoPlacedGhost a = bAutoPlacedGhost b"
    and "bOverrideFunction a = bOverrideFunction b" and "EventReference a = EventReference b"
    and "CustomFunctionName a = CustomFunctionName b" and "NodePos a = NodePos b"
    and "length (Pins a) = length (Pins b)"
proof -
  have "GetClass (StripLinks a) = GetClass (StripLinks b)" using assms by simp
  then show "GetClass a = GetClass b" by (simp add: StripLinks_def)
  have "bAutoPlacedGhost (StripLinks a) = bAutoPlacedGhost (StripLinks b)" using assms by simp
  then show "bAutoPlacedGhost a = bAutoPlacedGhost b" by (simp add: StripLinks_def)
  have "bOverrideFunction (StripLinks a) = bOverrideFunction (StripLinks b)" using assms by simp
  then show "bOverrideFunction a = bOverrideFunction b" by (simp add: StripLinks_def)
  have "EventReference (StripLinks a) = EventReference (StripLinks b)" using assms by simp
  then show "EventReference a = EventReference b" by (simp add: StripLinks_def)
  have "CustomFunctionName (StripLinks a) = CustomFunctionName (StripLinks b)" using assms by simp
  then show "CustomFunctionName a = CustomFunctionName b" by (simp add: StripLinks_def)
  have "NodePos (StripLinks a) = NodePos (StripLinks b)" using assms by simp
  then show "NodePos a = NodePos b" by (simp add: StripLinks_def)
  have "length (Pins (StripLinks a)) = length (Pins (StripLinks b))" using assms by simp
  then show "length (Pins a) = length (Pins b)" by (simp add: StripLinks_def)
qed

lemma SameNodeData_IsGhost:
  "SameNodeData g g' \<Longrightarrow> IsAutomaticallyPlacedGhostNode g' n = IsAutomaticallyPlacedGhostNode g n"
  using SameNodeData_length[of g g'] StripLinks_fields(2)[OF SameNodeData_nth[of g g' n]]
  by (auto simp: IsAutomaticallyPlacedGhostNode_def)

lemma SameNodeData_length_NodePins:
  "SameNodeData g g' \<Longrightarrow> length (NodePins g' n) = length (NodePins g n)"
  using SameNodeData_length[of g g'] StripLinks_fields(7)[OF SameNodeData_nth[of g g' n]]
  by (auto simp: NodePins_def)

lemma SameNodeData_ValidPin: "SameNodeData g g' \<Longrightarrow> ValidPin g' p = ValidPin g p"
  by (simp add: ValidPin_def SameNodeData_length_NodePins)

lemma map_const_update: "(map (\<lambda>x. c) xs)[i := c] = map (\<lambda>x. c) xs"
  by (induction xs arbitrary: i) (simp_all split: nat.split)

lemma SameNodeData_SetLinkedTo: "SameNodeData g (SetLinkedTo g p ls)"
proof (cases "ValidPin g p")
  case False
  then show ?thesis by (simp add: SetLinkedTo_def ValidPin_def)
next
  case True
  then have n: "fst p < length (Objects g)"
    by (auto simp: ValidPin_def NodePins_def split: if_splits)
  let ?nd = "Objects g ! fst p"
  have "StripLinks (?nd\<lparr>Pins := (Pins ?nd)[snd p := \<lparr>LinkedTo = ls\<rparr>]\<rparr>) = StripLinks ?nd"
    by (simp add: StripLinks_def map_update map_const_update)
  then have "map StripLinks ((Objects g)[fst p := ?nd\<lparr>Pins := (Pins ?nd)[snd p := \<lparr>LinkedTo = ls\<rparr>]\<rparr>])
               = map StripLinks (Objects g)"
    using n by (simp add: map_update list_update_same_conv)
  then show ?thesis using True by (simp add: SameNodeData_def SetLinkedTo_def ValidPin_def)
qed

lemma SameNodeData_BreakLinkTo: "SameNodeData g (BreakLinkTo g a b)"
  unfolding BreakLinkTo_def Let_def
  by (rule SameNodeData_trans[OF SameNodeData_SetLinkedTo SameNodeData_SetLinkedTo])

lemma Nodes_BreakLinkTo [simp]: "Nodes (BreakLinkTo g a b) = Nodes g"
  by (simp add: BreakLinkTo_def Let_def)

lemma SameNodeData_RemoveNode: "SameNodeData g (RemoveNode g n)"
  by (simp add: SameNodeData_def RemoveNode_def)

lemma GetLinkedTo_RemoveNode [simp]: "GetLinkedTo (RemoveNode g n) p = GetLinkedTo g p"
  by (simp add: GetLinkedTo_def RemoveNode_def NodePins_def)

lemma CascadeFrame_refl [simp]: "CascadeFrame g g"
  by (simp add: CascadeFrame_def)

lemma CascadeFrame_trans:
  assumes "CascadeFrame g g1" and "CascadeFrame g1 g2"
  shows "CascadeFrame g g2"
proof -
  have s: "SameNodeData g g2"
    using assms by (auto simp: CascadeFrame_def intro: SameNodeData_trans)
  have l: "\<forall>p. set (GetLinkedTo g2 p) \<subseteq> set (GetLinkedTo g p)"
    using assms unfolding CascadeFrame_def by blast
  have n: "set (Nodes g2) \<subseteq> set (Nodes g)"
    using assms unfolding CascadeFrame_def by blast
  have r: "\<forall>n. n \<in> set (Nodes g) \<and> n \<notin> set (Nodes g2) \<longrightarrow> IsAutomaticallyPlacedGhostNode g n"
  proof (intro allI impI)
    fix n assume a: "n \<in> set (Nodes g) \<and> n \<notin> set (Nodes g2)"
    show "IsAutomaticallyPlacedGhostNode g n"
    proof (cases "n \<in> set (Nodes g1)")
      case True
      with a assms(2) have "IsAutomaticallyPlacedGhostNode g1 n" by (simp add: CascadeFrame_def)
      moreover have "SameNodeData g g1" using assms(1) by (simp add: CascadeFrame_def)
      ultimately show ?thesis by (simp add: SameNodeData_IsGhost)
    next
      case False
      with a assms(1) show ?thesis by (simp add: CascadeFrame_def)
    qed
  qed
  from s l n r show ?thesis by (simp add: CascadeFrame_def)
qed

lemma CascadeFrame_BreakLinkTo: "CascadeFrame g (BreakLinkTo g a b)"
  by (auto simp: CascadeFrame_def SameNodeData_BreakLinkTo GetLinkedTo_BreakLinkTo)

lemma CascadeFrame_RemoveNode:
  "IsAutomaticallyPlacedGhostNode g n \<Longrightarrow> CascadeFrame g (RemoveNode g n)"
  by (auto simp: CascadeFrame_def SameNodeData_RemoveNode) (auto simp: RemoveNode_def)

lemma CascadeFrame_fold:
  assumes "\<And>x h. CascadeFrame h (f x h)"
  shows "CascadeFrame g (fold f xs g)"
proof (induction xs arbitrary: g)
  case Nil show ?case by simp
next
  case (Cons x xs)
  have "CascadeFrame g (f x g)" by (rule assms)
  moreover have "CascadeFrame (f x g) (fold f xs (f x g))" by (rule Cons.IH)
  ultimately show ?case by (auto intro: CascadeFrame_trans)
qed

lemma CascadeFrame_BreakAllPinLinks: "CascadeFrame g (BreakAllPinLinks g p)"
  unfolding BreakAllPinLinks_def by (rule CascadeFrame_fold) (rule CascadeFrame_BreakLinkTo)

lemma CascadeFrame_BreakAllNodeLinks: "CascadeFrame g (BreakAllNodeLinks g n)"
  unfolding BreakAllNodeLinks_def by (rule CascadeFrame_fold) (rule CascadeFrame_BreakAllPinLinks)

lemma CascadeFrame_IsGhost:
  "CascadeFrame g g' \<Longrightarrow> IsAutomaticallyPlacedGhostNode g' n = IsAutomaticallyPlacedGhostNode g n"
  by (simp add: CascadeFrame_def SameNodeData_IsGhost)

lemma RemoveGhostNodes_CascadeFrame:
  "CascadeFrame g (RemoveGhostNodes InNode g)"
  "CascadeFrame g1 (RemoveGhostNodes_Pins n is g1)"
  "CascadeFrame g2 (RemoveGhostNodes_LinkedTo Pin qs g2)"
proof (induction InNode g and n "is" g1 and Pin qs g2
    rule: RemoveGhostNodes_RemoveGhostNodes_Pins_RemoveGhostNodes_LinkedTo.induct)
  case (1 g)
  show ?case by (simp add: RemoveGhostNodes.simps)
next
  case (2 n g)
  show ?case
  proof (cases "IsAutomaticallyPlacedGhostNode g n")
    case True
    let ?g1 = "RemoveGhostNodes_Pins n [0..<length (NodePins g n)] g"
    let ?g2 = "BreakAllNodeLinks ?g1 n"
    have a: "CascadeFrame g ?g1" using 2 True by simp
    have b: "CascadeFrame ?g1 ?g2" by (rule CascadeFrame_BreakAllNodeLinks)
    have "IsAutomaticallyPlacedGhostNode ?g2 n"
      using True CascadeFrame_IsGhost[OF CascadeFrame_trans[OF a b]] by simp
    then have c: "CascadeFrame ?g2 (RemoveNode ?g2 n)" by (rule CascadeFrame_RemoveNode)
    have "CascadeFrame g (RemoveNode ?g2 n)"
      by (rule CascadeFrame_trans[OF CascadeFrame_trans[OF a b] c])
    then show ?thesis using True by (simp add: RemoveGhostNodes.simps)
  next
    case False
    then show ?thesis by (simp add: RemoveGhostNodes.simps)
  qed
next
  case (3 n g)
  show ?case by simp
next
  case (4 n i rest g)
  then show ?case by (auto intro: CascadeFrame_trans)
next
  case (5 Pin g)
  show ?case by simp
next
  case (6 Pin OtherPin rest g)
  have "CascadeFrame g (BreakLinkTo g OtherPin Pin)" by (rule CascadeFrame_BreakLinkTo)
  with 6 show ?case by (auto intro: CascadeFrame_trans)
qed

subsection \<open>The cascade clears what it walks\<close>

lemma CascadeFrame_links: "CascadeFrame g g' \<Longrightarrow> q \<in> set (GetLinkedTo g' p) \<Longrightarrow> q \<in> set (GetLinkedTo g p)"
  unfolding CascadeFrame_def by blast

lemma CascadeFrame_links_empty: "CascadeFrame g g' \<Longrightarrow> GetLinkedTo g p = [] \<Longrightarrow> GetLinkedTo g' p = []"
  using CascadeFrame_links[of g g' _ p] by (cases "GetLinkedTo g' p") auto

lemma CascadeFrame_Nodes: "CascadeFrame g g' \<Longrightarrow> n \<in> set (Nodes g') \<Longrightarrow> n \<in> set (Nodes g)"
  unfolding CascadeFrame_def by blast

lemma NodeLinkless_mono: "CascadeFrame g g' \<Longrightarrow> NodeLinkless g n \<Longrightarrow> NodeLinkless g' n"
  by (simp add: NodeLinkless_def CascadeFrame_links_empty)

lemma Gone_mono: "CascadeFrame g g' \<Longrightarrow> Gone g n \<Longrightarrow> Gone g' n"
  using CascadeFrame_Nodes[of g g' n] by (auto simp: Gone_def NodeLinkless_mono)

lemma BreakAllPinLinks_linkless: "GetLinkedTo g p = [] \<Longrightarrow> BreakAllPinLinks g p = g"
  by (simp add: BreakAllPinLinks_def)

lemma fold_BreakAllPinLinks_linkless:
  "NodeLinkless g n \<Longrightarrow> fold (\<lambda>i h. BreakAllPinLinks h (n, i)) is g = g"
  by (induction "is") (simp_all add: NodeLinkless_def BreakAllPinLinks_linkless)

lemma BreakAllNodeLinks_linkless: "NodeLinkless g n \<Longrightarrow> BreakAllNodeLinks g n = g"
  by (simp add: BreakAllNodeLinks_def fold_BreakAllPinLinks_linkless)

lemma RemoveGhostNodes_Some_ghost:
  assumes "IsAutomaticallyPlacedGhostNode g n"
      and "NodeLinkless (RemoveGhostNodes_Pins n [0..<length (NodePins g n)] g) n"
  shows "RemoveGhostNodes (Some n) g =
           RemoveNode (RemoveGhostNodes_Pins n [0..<length (NodePins g n)] g) n"
  using assms by (simp add: RemoveGhostNodes.simps BreakAllNodeLinks_linkless)

lemma Gone_RemoveNode: "NodeLinkless g n \<Longrightarrow> Gone (RemoveNode g n) n"
  by (simp add: Gone_def NodeLinkless_def) (simp add: RemoveNode_def)

lemma NodeLinkless_from_pins:
  assumes "\<forall>i\<in>set [0..<length (NodePins g n)]. GetLinkedTo g (n, i) = []"
  shows "NodeLinkless g n"
  unfolding NodeLinkless_def
proof
  fix i
  show "GetLinkedTo g (n, i) = []"
  proof (cases "i < length (NodePins g n)")
    case True
    with assms show ?thesis by simp
  next
    case False
    then show ?thesis by (simp add: GetLinkedTo_def)
  qed
qed

text \<open>The loops clear what they walk: after the loop over a copy no entry of the copy is linked,
  after the loop over the pins no walked pin has links, and a ghost node the cascade is called on
  is out of the graph and without links.\<close>

lemma RemoveGhostNodes_clears:
  "\<forall>n. InNode = Some n \<and> IsAutomaticallyPlacedGhostNode g n \<longrightarrow>
        NodeLinkless (RemoveGhostNodes_Pins n [0..<length (NodePins g n)] g) n \<and>
        Gone (RemoveGhostNodes InNode g) n"
  "\<forall>i\<in>set is. GetLinkedTo (RemoveGhostNodes_Pins n is g1) (n, i) = []"
  "set (GetLinkedTo (RemoveGhostNodes_LinkedTo Pin qs g2) Pin) \<inter> set qs = {}"
proof (induction InNode g and n "is" g1 and Pin qs g2
    rule: RemoveGhostNodes_RemoveGhostNodes_Pins_RemoveGhostNodes_LinkedTo.induct)
  case (1 g)
  show ?case by simp
next
  case (2 n g)
  show ?case
  proof (intro allI impI)
    fix m assume a: "Some n = Some m \<and> IsAutomaticallyPlacedGhostNode g m"
    then have mn: "m = n" and gh: "IsAutomaticallyPlacedGhostNode g n" by auto
    let ?g1 = "RemoveGhostNodes_Pins n [0..<length (NodePins g n)] g"
    have fr: "CascadeFrame g ?g1" by (rule RemoveGhostNodes_CascadeFrame(2))
    then have len: "length (NodePins ?g1 n) = length (NodePins g n)"
      by (simp add: CascadeFrame_def SameNodeData_length_NodePins)
    have "\<forall>i\<in>set [0..<length (NodePins g n)]. GetLinkedTo ?g1 (n, i) = []"
      using 2 gh by simp
    with len have ll: "NodeLinkless ?g1 n" by (intro NodeLinkless_from_pins) simp
    have "Gone (RemoveGhostNodes (Some n) g) n"
      using RemoveGhostNodes_Some_ghost[OF gh ll] Gone_RemoveNode[OF ll] by simp
    with ll mn show "NodeLinkless (RemoveGhostNodes_Pins m [0..<length (NodePins g m)] g) m \<and>
        Gone (RemoveGhostNodes (Some n) g) m" by simp
  qed
next
  case (3 n g)
  show ?case by simp
next
  case (4 n i rest g)
  let ?g1 = "RemoveGhostNodes_LinkedTo (n, i) (GetLinkedTo g (n, i)) g"
  let ?g2 = "RemoveGhostNodes_Pins n rest ?g1"
  have fr1: "CascadeFrame g ?g1" by (rule RemoveGhostNodes_CascadeFrame(3))
  have fr2: "CascadeFrame ?g1 ?g2" by (rule RemoveGhostNodes_CascadeFrame(2))
  have "set (GetLinkedTo ?g1 (n, i)) \<inter> set (GetLinkedTo g (n, i)) = {}" using 4 by simp
  moreover have "set (GetLinkedTo ?g1 (n, i)) \<subseteq> set (GetLinkedTo g (n, i))"
    using fr1 by (simp add: CascadeFrame_def)
  ultimately have "GetLinkedTo ?g1 (n, i) = []" by (cases "GetLinkedTo ?g1 (n, i)") auto
  then have "GetLinkedTo ?g2 (n, i) = []" by (rule CascadeFrame_links_empty[OF fr2])
  moreover have "\<forall>j\<in>set rest. GetLinkedTo ?g2 (n, j) = []" using 4 by simp
  ultimately show ?case by simp
next
  case (5 Pin g)
  show ?case by simp
next
  case (6 Pin OtherPin rest g)
  let ?g1 = "BreakLinkTo g OtherPin Pin"
  let ?g2 = "RemoveGhostNodes (GetOwningNode OtherPin) ?g1"
  let ?g3 = "RemoveGhostNodes_LinkedTo Pin rest ?g2"
  have "OtherPin \<notin> set (GetLinkedTo ?g1 Pin)" by (simp add: GetLinkedTo_BreakLinkTo)
  moreover have "CascadeFrame ?g1 ?g3"
    by (rule CascadeFrame_trans[OF RemoveGhostNodes_CascadeFrame(1) RemoveGhostNodes_CascadeFrame(3)])
  ultimately have "OtherPin \<notin> set (GetLinkedTo ?g3 Pin)"
    using CascadeFrame_links by blast
  moreover have "set (GetLinkedTo ?g3 Pin) \<inter> set rest = {}" using 6 by simp
  ultimately show ?case by simp
qed

lemma RemoveGhostNodes_Gone:
  "IsAutomaticallyPlacedGhostNode g n \<Longrightarrow> Gone (RemoveGhostNodes (Some n) g) n"
  using RemoveGhostNodes_clears(1)[of "Some n" g] by simp

lemma RemoveGhostNodes_ghost_eq:
  "IsAutomaticallyPlacedGhostNode g n \<Longrightarrow>
     RemoveGhostNodes (Some n) g =
       RemoveNode (RemoveGhostNodes_Pins n [0..<length (NodePins g n)] g) n"
  using RemoveGhostNodes_clears(1)[of "Some n" g] by (simp add: RemoveGhostNodes_Some_ghost)

subsection \<open>Severed links and removed nodes\<close>

lemma RemovedLinkless_refl [simp]: "RemovedLinkless g g"
  by (simp add: RemovedLinkless_def)

lemma RemovedLinkless_trans:
  assumes "RemovedLinkless g g1" and "RemovedLinkless g1 g2" and "CascadeFrame g1 g2"
  shows "RemovedLinkless g g2"
  unfolding RemovedLinkless_def
proof (intro allI impI)
  fix n assume a: "n \<in> set (Nodes g) \<and> n \<notin> set (Nodes g2)"
  show "NodeLinkless g2 n"
  proof (cases "n \<in> set (Nodes g1)")
    case True
    with a assms(2) show ?thesis by (simp add: RemovedLinkless_def)
  next
    case False
    with a assms(1) have "NodeLinkless g1 n" by (simp add: RemovedLinkless_def)
    then show ?thesis by (rule NodeLinkless_mono[OF assms(3)])
  qed
qed

lemma RemovedLinkless_BreakLinkTo: "RemovedLinkless g (BreakLinkTo g a b)"
  by (simp add: RemovedLinkless_def)

lemma Settled_refl [simp]: "Settled N g g"
  unfolding Settled_def by blast

lemma Settled_weaken: "Settled {} g g' \<Longrightarrow> Settled N g g'"
  unfolding Settled_def by blast

lemma Settled_trans:
  assumes "Settled N g g1" and "Settled N g1 g2" and "CascadeFrame g g1" and "CascadeFrame g1 g2"
  shows "Settled N g g2"
  unfolding Settled_def
proof (intro allI impI)
  fix p q m
  assume a: "q \<in> set (GetLinkedTo g p) \<and> q \<notin> set (GetLinkedTo g2 p) \<and>
             (m = fst p \<or> m = fst q) \<and> IsAutomaticallyPlacedGhostNode g m"
  show "m \<in> N \<or> Gone g2 m"
  proof (cases "q \<in> set (GetLinkedTo g1 p)")
    case True
    moreover have "IsAutomaticallyPlacedGhostNode g1 m"
      using a CascadeFrame_IsGhost[OF assms(3)] by simp
    ultimately show ?thesis using a assms(2) unfolding Settled_def by blast
  next
    case False
    with a assms(1) have "m \<in> N \<or> Gone g1 m" unfolding Settled_def by blast
    then show ?thesis using Gone_mono[OF assms(4)] by blast
  qed
qed

lemma BreakLinkTo_severed:
  assumes "q \<in> set (GetLinkedTo g p)" and "q \<notin> set (GetLinkedTo (BreakLinkTo g a b) p)"
  shows "(p = a \<and> q = b) \<or> (p = b \<and> q = a)"
  using assms by (auto simp: GetLinkedTo_BreakLinkTo split: if_splits)

lemma Settled_after_BreakLinkTo:
  assumes st: "Settled N (BreakLinkTo g a b) g3"
      and fr: "CascadeFrame (BreakLinkTo g a b) g3"
      and ea: "IsAutomaticallyPlacedGhostNode g (fst a) \<longrightarrow> fst a \<in> N \<or> Gone g3 (fst a)"
      and eb: "IsAutomaticallyPlacedGhostNode g (fst b) \<longrightarrow> fst b \<in> N \<or> Gone g3 (fst b)"
  shows "Settled N g g3"
  unfolding Settled_def
proof (intro allI impI)
  fix p q m
  assume h: "q \<in> set (GetLinkedTo g p) \<and> q \<notin> set (GetLinkedTo g3 p) \<and>
             (m = fst p \<or> m = fst q) \<and> IsAutomaticallyPlacedGhostNode g m"
  show "m \<in> N \<or> Gone g3 m"
  proof (cases "q \<in> set (GetLinkedTo (BreakLinkTo g a b) p)")
    case True
    moreover have "IsAutomaticallyPlacedGhostNode (BreakLinkTo g a b) m"
      using h CascadeFrame_IsGhost[OF CascadeFrame_BreakLinkTo, of g a b m] by simp
    ultimately show ?thesis using h st unfolding Settled_def by blast
  next
    case False
    with h have "(p = a \<and> q = b) \<or> (p = b \<and> q = a)" by (intro BreakLinkTo_severed) simp_all
    with h have "m = fst a \<or> m = fst b" by auto
    with h ea eb show ?thesis by auto
  qed
qed

lemma RemoveGhostNodes_settles:
  "RemovedLinkless g (RemoveGhostNodes InNode g) \<and> Settled {} g (RemoveGhostNodes InNode g)"
  "RemovedLinkless g1 (RemoveGhostNodes_Pins n is g1) \<and> Settled {n} g1 (RemoveGhostNodes_Pins n is g1)"
  "RemovedLinkless g2 (RemoveGhostNodes_LinkedTo Pin qs g2) \<and>
     Settled {fst Pin} g2 (RemoveGhostNodes_LinkedTo Pin qs g2)"
proof (induction InNode g and n "is" g1 and Pin qs g2
    rule: RemoveGhostNodes_RemoveGhostNodes_Pins_RemoveGhostNodes_LinkedTo.induct)
  case (1 g)
  show ?case by (simp add: RemoveGhostNodes.simps)
next
  case (2 n g)
  show ?case
  proof (cases "IsAutomaticallyPlacedGhostNode g n")
    case False
    then show ?thesis by (simp add: RemoveGhostNodes.simps)
  next
    case True
    let ?g1 = "RemoveGhostNodes_Pins n [0..<length (NodePins g n)] g"
    let ?g' = "RemoveGhostNodes (Some n) g"
    have eq: "?g' = RemoveNode ?g1 n" by (rule RemoveGhostNodes_ghost_eq[OF True])
    have gone: "Gone ?g' n" by (rule RemoveGhostNodes_Gone[OF True])
    have fr1: "CascadeFrame g ?g1" by (rule RemoveGhostNodes_CascadeFrame(2))
    have gh1: "IsAutomaticallyPlacedGhostNode ?g1 n"
      using True CascadeFrame_IsGhost[OF fr1] by simp
    have fr2: "CascadeFrame ?g1 ?g'" unfolding eq by (rule CascadeFrame_RemoveNode[OF gh1])
    have ih: "RemovedLinkless g ?g1" "Settled {n} g ?g1" using 2[OF True] by blast+
    have rl: "RemovedLinkless g ?g'"
      unfolding RemovedLinkless_def
    proof (intro allI impI)
      fix m assume a: "m \<in> set (Nodes g) \<and> m \<notin> set (Nodes ?g')"
      show "NodeLinkless ?g' m"
      proof (cases "m = n")
        case True
        with gone show ?thesis by (simp add: Gone_def)
      next
        case False
        with a have "m \<notin> set (Nodes ?g1)" by (simp add: eq RemoveNode_def)
        with a ih(1) have "NodeLinkless ?g1 m" by (simp add: RemovedLinkless_def)
        then show ?thesis by (rule NodeLinkless_mono[OF fr2])
      qed
    qed
    have st: "Settled {} g ?g'"
      unfolding Settled_def
    proof (intro allI impI)
      fix p q m
      assume h: "q \<in> set (GetLinkedTo g p) \<and> q \<notin> set (GetLinkedTo ?g' p) \<and>
                 (m = fst p \<or> m = fst q) \<and> IsAutomaticallyPlacedGhostNode g m"
      then have "q \<notin> set (GetLinkedTo ?g1 p)" by (simp add: eq)
      with h ih(2) have "m \<in> {n} \<or> Gone ?g1 m" unfolding Settled_def by blast
      then have "Gone ?g' m" using gone Gone_mono[OF fr2] by auto
      then show "m \<in> {} \<or> Gone ?g' m" by simp
    qed
    from rl st show ?thesis by simp
  qed
next
  case (3 n g)
  show ?case by simp
next
  case (4 n i rest g)
  let ?g1 = "RemoveGhostNodes_LinkedTo (n, i) (GetLinkedTo g (n, i)) g"
  let ?g2 = "RemoveGhostNodes_Pins n rest ?g1"
  have fr1: "CascadeFrame g ?g1" by (rule RemoveGhostNodes_CascadeFrame(3))
  have fr2: "CascadeFrame ?g1 ?g2" by (rule RemoveGhostNodes_CascadeFrame(2))
  have r1: "RemovedLinkless g ?g1" and s1: "Settled {fst (n, i)} g ?g1" using 4(1) by blast+
  have r2: "RemovedLinkless ?g1 ?g2" and s2: "Settled {n} ?g1 ?g2" using 4(2) by blast+
  have "RemovedLinkless g ?g2" by (rule RemovedLinkless_trans[OF r1 r2 fr2])
  moreover have "Settled {n} g ?g2"
    using s1 by (intro Settled_trans[OF _ s2 fr1 fr2]) simp
  ultimately show ?case by simp
next
  case (5 Pin g)
  show ?case by simp
next
  case (6 Pin OtherPin rest g)
  let ?g1 = "BreakLinkTo g OtherPin Pin"
  let ?g2 = "RemoveGhostNodes (GetOwningNode OtherPin) ?g1"
  let ?g3 = "RemoveGhostNodes_LinkedTo Pin rest ?g2"
  have fr12: "CascadeFrame ?g1 ?g2" by (rule RemoveGhostNodes_CascadeFrame(1))
  have fr23: "CascadeFrame ?g2 ?g3" by (rule RemoveGhostNodes_CascadeFrame(3))
  have fr13: "CascadeFrame ?g1 ?g3" by (rule CascadeFrame_trans[OF fr12 fr23])
  have rl12: "RemovedLinkless ?g1 ?g2" and st12: "Settled {} ?g1 ?g2" using 6(1) by blast+
  have rl23: "RemovedLinkless ?g2 ?g3" and st23: "Settled {fst Pin} ?g2 ?g3" using 6(2) by blast+
  have rl13: "RemovedLinkless ?g1 ?g3" by (rule RemovedLinkless_trans[OF rl12 rl23 fr23])
  have rl: "RemovedLinkless g ?g3"
    by (rule RemovedLinkless_trans[OF RemovedLinkless_BreakLinkTo rl13 fr13])
  have st13: "Settled {fst Pin} ?g1 ?g3"
    by (rule Settled_trans[OF Settled_weaken[OF st12] st23 fr12 fr23])
  have ea: "IsAutomaticallyPlacedGhostNode g (fst OtherPin) \<longrightarrow>
              fst OtherPin \<in> {fst Pin} \<or> Gone ?g3 (fst OtherPin)"
  proof
    assume "IsAutomaticallyPlacedGhostNode g (fst OtherPin)"
    then have "IsAutomaticallyPlacedGhostNode ?g1 (fst OtherPin)"
      using CascadeFrame_IsGhost[OF CascadeFrame_BreakLinkTo, of g OtherPin Pin] by simp
    then have "Gone (RemoveGhostNodes (Some (fst OtherPin)) ?g1) (fst OtherPin)"
      by (rule RemoveGhostNodes_Gone)
    then have "Gone ?g2 (fst OtherPin)" by (simp add: GetOwningNode_def)
    then show "fst OtherPin \<in> {fst Pin} \<or> Gone ?g3 (fst OtherPin)"
      using Gone_mono[OF fr23] by blast
  qed
  have st: "Settled {fst Pin} g ?g3"
    by (rule Settled_after_BreakLinkTo[OF st13 fr13 ea]) simp
  from rl st show ?case by simp
qed

subsection \<open>Two-way links\<close>

lemma set_AllPins: "set (AllPins g) = {p. ValidPin g p}"
proof -
  have "ValidPin g (n, i) \<longleftrightarrow> n < length (Objects g) \<and> i < length (NodePins g n)" for n i
    by (auto simp: ValidPin_def NodePins_def)
  then show ?thesis by (auto simp: AllPins_def)
qed

lemma LinksSymmetric_iff:
  "LinksSymmetric g \<longleftrightarrow> (\<forall>p q. q \<in> set (GetLinkedTo g p) \<longrightarrow> p \<in> set (GetLinkedTo g q))"
proof
  assume a: "LinksSymmetric g"
  show "\<forall>p q. q \<in> set (GetLinkedTo g p) \<longrightarrow> p \<in> set (GetLinkedTo g q)"
  proof (intro allI impI)
    fix p q assume h: "q \<in> set (GetLinkedTo g p)"
    then have "ValidPin g p" using GetLinkedTo_invalid[of g p] by fastforce
    then have "p \<in> set (AllPins g)" by (simp add: set_AllPins)
    with a h show "p \<in> set (GetLinkedTo g q)"
      unfolding LinksSymmetric_def list_all_iff by blast
  qed
next
  assume "\<forall>p q. q \<in> set (GetLinkedTo g p) \<longrightarrow> p \<in> set (GetLinkedTo g q)"
  then show "LinksSymmetric g" unfolding LinksSymmetric_def list_all_iff by blast
qed

lemma LinksSymmetric_BreakLinkTo:
  assumes "LinksSymmetric g"
  shows "LinksSymmetric (BreakLinkTo g a b)"
  unfolding LinksSymmetric_iff
proof (intro allI impI)
  fix p q
  assume h: "q \<in> set (GetLinkedTo (BreakLinkTo g a b) p)"
  then have pq: "q \<in> set (GetLinkedTo g p)"
    using CascadeFrame_links[OF CascadeFrame_BreakLinkTo] by blast
  then have qp: "p \<in> set (GetLinkedTo g q)" using assms unfolding LinksSymmetric_iff by blast
  have "\<not> (p = a \<and> q = b)" "\<not> (p = b \<and> q = a)"
    using h by (auto simp: GetLinkedTo_BreakLinkTo split: if_splits)
  with qp show "p \<in> set (GetLinkedTo (BreakLinkTo g a b) q)"
    by (auto simp: GetLinkedTo_BreakLinkTo)
qed

lemma LinksSymmetric_RemoveNode: "LinksSymmetric g \<Longrightarrow> LinksSymmetric (RemoveNode g n)"
  unfolding LinksSymmetric_iff by simp

lemma RemoveGhostNodes_LinksSymmetric:
  "LinksSymmetric g \<longrightarrow> LinksSymmetric (RemoveGhostNodes InNode g)"
  "LinksSymmetric g1 \<longrightarrow> LinksSymmetric (RemoveGhostNodes_Pins n is g1)"
  "LinksSymmetric g2 \<longrightarrow> LinksSymmetric (RemoveGhostNodes_LinkedTo Pin qs g2)"
proof (induction InNode g and n "is" g1 and Pin qs g2
    rule: RemoveGhostNodes_RemoveGhostNodes_Pins_RemoveGhostNodes_LinkedTo.induct)
  case (1 g)
  show ?case by (simp add: RemoveGhostNodes.simps)
next
  case (2 n g)
  show ?case
  proof (cases "IsAutomaticallyPlacedGhostNode g n")
    case False
    then show ?thesis by (simp add: RemoveGhostNodes.simps)
  next
    case True
    with 2 show ?thesis
      by (simp add: RemoveGhostNodes_ghost_eq LinksSymmetric_RemoveNode)
  qed
next
  case (3 n g)
  show ?case by simp
next
  case (4 n i rest g)
  then show ?case by simp
next
  case (5 Pin g)
  show ?case by simp
next
  case (6 Pin OtherPin rest g)
  then show ?case by (simp add: LinksSymmetric_BreakLinkTo)
qed

subsection \<open>Cascade completeness, live nodes, termination\<close>

lemma RemoveGhostNodes_Settled: "Settled {} g (RemoveGhostNodes InNode g)"
  using RemoveGhostNodes_settles(1) by blast

lemma RemoveGhostNodes_RemovedLinkless: "RemovedLinkless g (RemoveGhostNodes InNode g)"
  using RemoveGhostNodes_settles(1) by blast

lemma RemoveGhostNodes_GhostConnected:
  assumes "GhostConnected g n m"
  shows "Gone (RemoveGhostNodes (Some n) g) m"
  using assms
proof (induction rule: GhostConnected.induct)
  case (start n)
  then show ?case by (rule RemoveGhostNodes_Gone)
next
  case (step n m q i)
  let ?g' = "RemoveGhostNodes (Some n) g"
  from step.IH have "GetLinkedTo ?g' (m, i) = []" by (simp add: Gone_def NodeLinkless_def)
  then have "q \<notin> set (GetLinkedTo ?g' (m, i))" by simp
  with step.hyps(2,3) RemoveGhostNodes_Settled[of g "Some n"]
  show ?case unfolding Settled_def by blast
qed

lemma RemoveGhostNodes_no_dangling:
  assumes sym: "LinksSymmetric g"
      and link: "q \<in> set (GetLinkedTo (RemoveGhostNodes InNode g) p)"
      and was: "fst q \<in> set (Nodes g)"
  shows "fst q \<in> set (Nodes (RemoveGhostNodes InNode g))"
proof (rule ccontr)
  let ?g' = "RemoveGhostNodes InNode g"
  assume "fst q \<notin> set (Nodes ?g')"
  with was RemoveGhostNodes_RemovedLinkless[of g InNode] have "NodeLinkless ?g' (fst q)"
    unfolding RemovedLinkless_def by blast
  then have "GetLinkedTo ?g' (fst q, snd q) = []" unfolding NodeLinkless_def by blast
  then have e: "GetLinkedTo ?g' q = []" by simp
  have "LinksSymmetric ?g'" using sym RemoveGhostNodes_LinksSymmetric(1) by blast
  with link have "p \<in> set (GetLinkedTo ?g' q)" unfolding LinksSymmetric_iff by blast
  with e show False by simp
qed

text \<open>
  Claim C5 (cascade completeness). In a graph whose links are kept in both directions, let
  \<open>a\<close>, \<open>b\<close>, \<open>c\<close> be ghost nodes with \<open>a\<close> linked to \<open>b\<close> and \<open>b\<close> linked to \<open>c\<close>. The
  cascade started at \<open>a\<close> takes all three out of the graph, and afterwards no pin holds a link to
  a node that the cascade removed.
\<close>

theorem RemoveGhostNodes_cascade_complete:
  assumes "LinksSymmetric g"
      and "IsAutomaticallyPlacedGhostNode g a"
      and "IsAutomaticallyPlacedGhostNode g b"
      and "IsAutomaticallyPlacedGhostNode g c"
      and "(b, j) \<in> set (GetLinkedTo g (a, i))"
      and "(c, l) \<in> set (GetLinkedTo g (b, k))"
  shows "a \<notin> set (Nodes (RemoveGhostNodes (Some a) g)) \<and>
         b \<notin> set (Nodes (RemoveGhostNodes (Some a) g)) \<and>
         c \<notin> set (Nodes (RemoveGhostNodes (Some a) g)) \<and>
         (\<forall>p q. q \<in> set (GetLinkedTo (RemoveGhostNodes (Some a) g) p) \<and> fst q \<in> set (Nodes g)
                \<longrightarrow> fst q \<in> set (Nodes (RemoveGhostNodes (Some a) g)))"
proof -
  have ca: "GhostConnected g a a" by (rule GhostConnected.start[OF assms(2)])
  have cb: "GhostConnected g a b"
    using GhostConnected.step[OF ca assms(5)] assms(3) by simp
  have cc: "GhostConnected g a c"
    using GhostConnected.step[OF cb assms(6)] assms(4) by simp
  have "Gone (RemoveGhostNodes (Some a) g) a" "Gone (RemoveGhostNodes (Some a) g) b"
       "Gone (RemoveGhostNodes (Some a) g) c"
    using ca cb cc by (auto intro: RemoveGhostNodes_GhostConnected)
  moreover have "\<forall>p q. q \<in> set (GetLinkedTo (RemoveGhostNodes (Some a) g) p) \<and> fst q \<in> set (Nodes g)
                \<longrightarrow> fst q \<in> set (Nodes (RemoveGhostNodes (Some a) g))"
    using RemoveGhostNodes_no_dangling[OF assms(1)] by blast
  ultimately show ?thesis unfolding Gone_def by blast
qed

text \<open>
  Claim C6 (ghost-only deletion). A node of the graph that is not an automatically placed ghost
  is still in the graph after \<^verbatim>\<open>RemoveGhostNodes\<close>, whatever node the cascade starts at, and it
  is still not a ghost; the cascade changes nothing of any node but links.
\<close>

theorem RemoveGhostNodes_keeps_live_nodes:
  assumes "n \<in> set (Nodes g)" and "\<not> IsAutomaticallyPlacedGhostNode g n"
  shows "n \<in> set (Nodes (RemoveGhostNodes InNode g)) \<and>
         \<not> IsAutomaticallyPlacedGhostNode (RemoveGhostNodes InNode g) n \<and>
         SameNodeData g (RemoveGhostNodes InNode g)"
proof -
  have fr: "CascadeFrame g (RemoveGhostNodes InNode g)" by (rule RemoveGhostNodes_CascadeFrame(1))
  then have "n \<in> set (Nodes (RemoveGhostNodes InNode g))"
    using assms unfolding CascadeFrame_def by blast
  moreover have "\<not> IsAutomaticallyPlacedGhostNode (RemoveGhostNodes InNode g) n"
    using assms(2) CascadeFrame_IsGhost[OF fr] by simp
  moreover have "SameNodeData g (RemoveGhostNodes InNode g)"
    using fr unfolding CascadeFrame_def by blast
  ultimately show ?thesis by blast
qed

text \<open>
  Claim C10 (termination of the ghost cascade), as stated, gives a reason that fails: a
  recursive call need not be preceded by the breaking of a link. In the triangle of three
  ghosts the cascade started at node 0 copies the links \<open>[(1, 0), (2, 0)]\<close> of pin \<open>(0, 0)\<close>.
  The call made for the first entry removes nodes 1, 2 and 0 and severs every link. When the
  loop comes to the second entry, the link between \<open>(2, 0)\<close> and \<open>(0, 0)\<close> is gone:
  \<^verbatim>\<open>BreakLinkTo\<close> changes nothing, the number of links stays the same, and the recursive call
  on node 2, still flagged as a ghost, is made all the same.
\<close>

theorem RemoveGhostNodes_stale_entry_counterexample:
  "GetLinkedTo TriangleGraph (0, 0) = [(1, 0), (2, 0)] \<and>
   RemoveGhostNodes_LinkedTo (0, 0) [(1, 0), (2, 0)] TriangleGraph
     = RemoveGhostNodes_LinkedTo (0, 0) []
         (RemoveGhostNodes (GetOwningNode (2, 0))
            (BreakLinkTo TriangleGraphAtSecondEntry (2, 0) (0, 0))) \<and>
   (2, 0) \<notin> set (GetLinkedTo TriangleGraphAtSecondEntry (0, 0)) \<and>
   BreakLinkTo TriangleGraphAtSecondEntry (2, 0) (0, 0) = TriangleGraphAtSecondEntry \<and>
   TotalLinks (BreakLinkTo TriangleGraphAtSecondEntry (2, 0) (0, 0))
     = TotalLinks TriangleGraphAtSecondEntry \<and>
   IsAutomaticallyPlacedGhostNode TriangleGraphAtSecondEntry 2"
  by code_simp

text \<open>
  Claim C10, amended. \<^verbatim>\<open>RemoveGhostNodes\<close> terminates on every finite graph, cyclic links
  between ghost nodes included: from every start node and every graph the call lies in the
  accessible part of the call relation. Graphs are finite by construction (the store is a
  list), and the cascade is measured by the number of links: the cascade never raises it, and
  the \<^verbatim>\<open>BreakLinkTo\<close> that precedes a recursive call lowers it whenever the link is still
  there. (For an entry of the copy that an inner call has severed already the number stays as it
  is; the measure of the termination proof orders those calls by its further components.)
\<close>

theorem RemoveGhostNodes_terminates:
  "RemoveGhostNodes_RemoveGhostNodes_Pins_RemoveGhostNodes_LinkedTo_dom (Inl (InNode, g)) \<and>
   TotalLinks (RemoveGhostNodes InNode g) \<le> TotalLinks g \<and>
   (OtherPin \<in> set (GetLinkedTo g Pin) \<longrightarrow>
      TotalLinks (BreakLinkTo g OtherPin Pin) < TotalLinks g)"
  using RemoveGhostNodes_wellfounded RemoveGhostNodes_TotalLinks_partial(1)[of InNode g]
    TotalLinks_BreakLinkTo_less[of OtherPin g Pin]
  by simp

lemma ChainGraph_symmetric: "LinksSymmetric ChainGraph"
  by (simp add: LinksSymmetric_def AllPins_def ChainGraph_def NodePins_def ExampleNode_def MakePin_def GetLinkedTo_def)

lemma ChainGraph_cascade:
  "Nodes (RemoveGhostNodes (Some 0) ChainGraph) = [3] \<and>
   map Pins (Objects (RemoveGhostNodes (Some 0) ChainGraph))
     = [[MakePin []], [MakePin [], MakePin []], [MakePin []], [MakePin []]]"
  by code_simp

theorem RemoveGhostNodes_cascade_complete_witness:
  "LinksSymmetric ChainGraph \<and>
   IsAutomaticallyPlacedGhostNode ChainGraph 0 \<and>
   IsAutomaticallyPlacedGhostNode ChainGraph 1 \<and>
   IsAutomaticallyPlacedGhostNode ChainGraph 2 \<and>
   (1, 0) \<in> set (GetLinkedTo ChainGraph (0, 0)) \<and>
   (2, 0) \<in> set (GetLinkedTo ChainGraph (1, 1)) \<and>
   0 \<notin> set (Nodes (RemoveGhostNodes (Some 0) ChainGraph)) \<and>
   1 \<notin> set (Nodes (RemoveGhostNodes (Some 0) ChainGraph)) \<and>
   2 \<notin> set (Nodes (RemoveGhostNodes (Some 0) ChainGraph)) \<and>
   (2, 0) \<notin> set (GetLinkedTo (RemoveGhostNodes (Some 0) ChainGraph) (3, 0))"
proof -
  have g: "IsAutomaticallyPlacedGhostNode ChainGraph 0" "IsAutomaticallyPlacedGhostNode ChainGraph 1"
    "IsAutomaticallyPlacedGhostNode ChainGraph 2"
    by (simp_all add: IsAutomaticallyPlacedGhostNode_def ChainGraph_def ExampleNode_def)
  have l: "(1, 0) \<in> set (GetLinkedTo ChainGraph (0, 0))" "(2, 0) \<in> set (GetLinkedTo ChainGraph (1, 1))"
    by (simp_all add: GetLinkedTo_def NodePins_def ChainGraph_def ExampleNode_def MakePin_def)
  have n: "fst (2, 0) \<in> set (Nodes ChainGraph)" by (simp add: ChainGraph_def)
  from RemoveGhostNodes_cascade_complete[OF ChainGraph_symmetric g l] n
  have "0 \<notin> set (Nodes (RemoveGhostNodes (Some 0) ChainGraph)) \<and>
        1 \<notin> set (Nodes (RemoveGhostNodes (Some 0) ChainGraph)) \<and>
        2 \<notin> set (Nodes (RemoveGhostNodes (Some 0) ChainGraph)) \<and>
        (2, 0) \<notin> set (GetLinkedTo (RemoveGhostNodes (Some 0) ChainGraph) (3, 0))"
    by (metis fst_conv)
  with ChainGraph_symmetric g l show ?thesis by simp
qed

theorem RemoveGhostNodes_keeps_live_nodes_witness:
  "3 \<in> set (Nodes ChainGraph) \<and> \<not> IsAutomaticallyPlacedGhostNode ChainGraph 3 \<and>
   3 \<in> set (Nodes (RemoveGhostNodes (Some 0) ChainGraph)) \<and>
   \<not> IsAutomaticallyPlacedGhostNode (RemoveGhostNodes (Some 0) ChainGraph) 3 \<and>
   SameNodeData ChainGraph (RemoveGhostNodes (Some 0) ChainGraph)"
proof -
  have a: "3 \<in> set (Nodes ChainGraph)" by (simp add: ChainGraph_def)
  have b: "\<not> IsAutomaticallyPlacedGhostNode ChainGraph 3"
    by (simp add: IsAutomaticallyPlacedGhostNode_def ChainGraph_def ExampleNode_def)
  from RemoveGhostNodes_keeps_live_nodes[OF a b, of "Some 0"] a b show ?thesis by simp
qed

theorem RemoveGhostNodes_terminates_witness:
  "RemoveGhostNodes_RemoveGhostNodes_Pins_RemoveGhostNodes_LinkedTo_dom (Inl (Some 0, ChainGraph)) \<and>
   TotalLinks (RemoveGhostNodes (Some 0) ChainGraph) \<le> TotalLinks ChainGraph \<and>
   (1, 0) \<in> set (GetLinkedTo ChainGraph (0, 0)) \<and>
   TotalLinks (BreakLinkTo ChainGraph (1, 0) (0, 0)) < TotalLinks ChainGraph"
proof -
  have l: "(1, 0) \<in> set (GetLinkedTo ChainGraph (0, 0))"
    by (simp add: GetLinkedTo_def NodePins_def ChainGraph_def ExampleNode_def MakePin_def)
  from RemoveGhostNodes_terminates[of "Some 0" ChainGraph "(1, 0)" "(0, 0)"] l
  show ?thesis by simp
qed

subsection \<open>The lookup of existing events\<close>

lemma find_filter_conj: "find P (filter Q xs) = find (\<lambda>x. Q x \<and> P x) xs"
  by (induction xs) simp_all

lemma find_False: "find (\<lambda>x. False) xs = None"
  by (induction xs) simp_all

lemma FindPreExistingEvent_find:
  "FindPreExistingEvent sp g = find (NodeMatches sp g) (BlueprintNodes g)"
proof (cases "EventFunc sp")
  case None
  show ?thesis
  proof (cases "CustomEventName sp = NAME_None")
    case True
    have "NodeMatches sp g = (\<lambda>x. False)"
      using None True by (simp add: NodeMatches_def MatchesIdentity_def fun_eq_iff)
    then show ?thesis using None True
      by (simp add: FindPreExistingEvent_def FindCustomEventNode_def find_False)
  next
    case False
    have "(\<lambda>n. IsEventNode g n \<and> CustomFunctionName (Objects g ! n) = CustomEventName sp)
            = NodeMatches sp g"
      using None False
      by (auto simp: NodeMatches_def MatchesIdentity_def IsEventNode_def IsEventClass_def fun_eq_iff)
    then show ?thesis using None False
      by (simp add: FindPreExistingEvent_def FindCustomEventNode_def GetAllEventNodes_def
          find_filter_conj)
  qed
next
  case (Some f)
  have "(\<lambda>n. IsEventNode g n \<and> bOverrideFunction (Objects g ! n) \<and>
             MemberName (EventReference (Objects g ! n)) = FunctionFName f \<and>
             MemberParent (EventReference (Objects g ! n)) = Some (AuthoritativeClass (OwnerClass f)))
          = NodeMatches sp g"
    using Some
    by (auto simp: NodeMatches_def MatchesIdentity_def IsEventNode_def IsEventClass_def fun_eq_iff)
  then show ?thesis using Some
    by (simp add: FindPreExistingEvent_def FindOverrideForFunction_def GetAllEventNodes_def
        find_filter_conj Let_def)
qed

lemma FindPreExistingEvent_Some:
  "FindPreExistingEvent sp g = Some n \<Longrightarrow> n \<in> set (BlueprintNodes g) \<and> NodeMatches sp g n"
  unfolding FindPreExistingEvent_find by (auto simp: find_Some_iff)




subsection \<open>Ghost override\<close>

lemma SpawnEventNode_eq:
  "SpawnEventNode sp g Location = (length (Objects g), AfterSpawn sp g Location)"
  by (simp add: SpawnEventNode_def SpawnNode_def AfterSpawn_def SpawnedNode_def Let_def)

lemma Invoke_lookup_path:
  assumes "FindFunctionGraph (GetEventName sp) (FunctionGraphs g) = None"
  shows "Invoke sp (Some g) Location =
           (case (if \<not> bTemplateOuter g then FindPreExistingEvent sp g else None) of
              None \<Rightarrow> Inr (Some (length (Objects g)), AfterSpawn sp g Location)
            | Some e \<Rightarrow>
                if IsAutomaticallyPlacedGhostNode g e
                then Inr (Some (length (Objects (RemoveGhostNodes (Some e) g))),
                          AfterSpawn sp (RemoveGhostNodes (Some e) g) Location)
                else Inr (Some e, g))"
  by (simp add: Invoke_no_function_graph[OF assms] SpawnEventNode_eq split: option.split)

lemma HookKeepsLive_unbound: "CustomizeNodeDelegate sp = None \<Longrightarrow> HookKeepsLive sp"
  by (simp add: HookKeepsLive_def ExecuteIfBound_def)

lemma HookKeepsMatch_unbound: "CustomizeNodeDelegate sp = None \<Longrightarrow> HookKeepsMatch sp"
  by (simp add: HookKeepsMatch_def ExecuteIfBound_def)

lemma SpawnedNode_live:
  assumes "HookKeepsLive sp"
  shows "\<not> bAutoPlacedGhost (SpawnedNode sp g Location)"
proof -
  let ?k = "case EventFunc sp of
              Some f \<Rightarrow> (NewObject (EventClass (NodeClass sp)))
                         \<lparr>bOverrideFunction := True, EventReference := SetFromField f False\<rparr>
            | None \<Rightarrow> if \<not> bTemplateOuter g
                       then (NewObject (EventClass (NodeClass sp)))\<lparr>CustomFunctionName := GetEventName sp\<rparr>
                       else NewObject (EventClass (NodeClass sp))"
  have "\<not> bAutoPlacedGhost ?k" by (simp add: NewObject_def split: option.split)
  with assms have "\<not> bAutoPlacedGhost (ExecuteIfBound (CustomizeNodeDelegate sp) ?k (bTemplateOuter g))"
    unfolding HookKeepsLive_def by blast
  then show ?thesis by (simp add: SpawnedNode_def PostSpawnLambda_def Let_def)
qed

lemma MatchesIdentity_NodePos [simp]:
  "MatchesIdentity sp (node\<lparr>NodePos := Location\<rparr>) = MatchesIdentity sp node"
  by (simp add: MatchesIdentity_def split: option.split)

lemma SpawnedNode_matches:
  assumes "\<not> bTemplateOuter g" and "HasVariant sp" and "HookKeepsMatch sp"
  shows "MatchesIdentity sp (SpawnedNode sp g Location)"
proof -
  let ?k = "case EventFunc sp of
              Some f \<Rightarrow> (NewObject (EventClass (NodeClass sp)))
                         \<lparr>bOverrideFunction := True, EventReference := SetFromField f False\<rparr>
            | None \<Rightarrow> if \<not> bTemplateOuter g
                       then (NewObject (EventClass (NodeClass sp)))\<lparr>CustomFunctionName := GetEventName sp\<rparr>
                       else NewObject (EventClass (NodeClass sp))"
  have "MatchesIdentity sp ?k"
    using assms(1,2)
    by (cases "EventFunc sp")
       (simp_all add: MatchesIdentity_def NewObject_def IsEventClass_def HasVariant_def
         GetEventName_def SetFromField_def)
  with assms(3) have "MatchesIdentity sp (ExecuteIfBound (CustomizeNodeDelegate sp) ?k (bTemplateOuter g))"
    unfolding HookKeepsMatch_def by blast
  then show ?thesis by (simp add: SpawnedNode_def PostSpawnLambda_def Let_def)
qed

lemma AfterSpawn_fields [simp]:
  "Nodes (AfterSpawn sp g Location) = Nodes g @ [length (Objects g)]"
  "EarlierGraphNodes (AfterSpawn sp g Location) = EarlierGraphNodes g"
  "LaterGraphNodes (AfterSpawn sp g Location) = LaterGraphNodes g"
  "FunctionGraphs (AfterSpawn sp g Location) = FunctionGraphs g"
  "bTemplateOuter (AfterSpawn sp g Location) = bTemplateOuter g"
  "length (Objects (AfterSpawn sp g Location)) = Suc (length (Objects g))"
  "Objects (AfterSpawn sp g Location) ! length (Objects g) = SpawnedNode sp g Location"
  by (simp_all add: AfterSpawn_def)

lemma AfterSpawn_nth: "n < length (Objects g) \<Longrightarrow> Objects (AfterSpawn sp g Location) ! n = Objects g ! n"
  by (simp add: AfterSpawn_def nth_append)

lemma AfterSpawn_IsGhost_old:
  "n < length (Objects g) \<Longrightarrow>
     IsAutomaticallyPlacedGhostNode (AfterSpawn sp g Location) n = IsAutomaticallyPlacedGhostNode g n"
  by (simp add: IsAutomaticallyPlacedGhostNode_def AfterSpawn_nth)

lemma AfterSpawn_IsGhost_new:
  "HookKeepsLive sp \<Longrightarrow> \<not> IsAutomaticallyPlacedGhostNode (AfterSpawn sp g Location) (length (Objects g))"
  by (simp add: IsAutomaticallyPlacedGhostNode_def SpawnedNode_live)

lemma AfterSpawn_GetLinkedTo_old:
  "n < length (Objects g) \<Longrightarrow> GetLinkedTo (AfterSpawn sp g Location) (n, i) = GetLinkedTo g (n, i)"
  by (simp add: GetLinkedTo_def NodePins_def AfterSpawn_nth)

lemma GhostConnected_ghost: "GhostConnected g n m \<Longrightarrow> IsAutomaticallyPlacedGhostNode g m"
  by (induction rule: GhostConnected.induct) simp_all

lemma IsGhost_in_store: "IsAutomaticallyPlacedGhostNode g n \<Longrightarrow> n < length (Objects g)"
  by (simp add: IsAutomaticallyPlacedGhostNode_def)

lemma RemoveGhostNodes_length_Objects:
  "length (Objects (RemoveGhostNodes InNode g)) = length (Objects g)"
  using RemoveGhostNodes_CascadeFrame(1)[of g InNode]
  by (simp add: CascadeFrame_def SameNodeData_length)

lemma Gone_AfterSpawn:
  assumes "Gone g m" and "m < length (Objects g)"
  shows "m \<notin> set (Nodes (AfterSpawn sp g Location)) \<and> NodeLinkless (AfterSpawn sp g Location) m"
  using assms by (simp add: Gone_def NodeLinkless_def AfterSpawn_GetLinkedTo_old)

lemma Nodes_BlueprintNodes: "n \<in> set (Nodes g) \<Longrightarrow> n \<in> set (BlueprintNodes g)"
  by (simp add: BlueprintNodes_def)

lemma BlueprintNodes_AfterSpawn:
  "BlueprintNodes (AfterSpawn sp g Location)
     = (EarlierGraphNodes g @ Nodes g) @ length (Objects g) # LaterGraphNodes g"
  by (simp add: BlueprintNodes_def)

lemma SameNodeData_other_graphs:
  "SameNodeData g g' \<Longrightarrow>
     EarlierGraphNodes g' = EarlierGraphNodes g \<and> LaterGraphNodes g' = LaterGraphNodes g"
  by (simp add: SameNodeData_def)

lemma Invoke_no_graph_of_name:
  assumes "\<forall>F. Some F \<in> set (FunctionGraphs g) \<longrightarrow>
             GraphFName F \<noteq> (case EventFunc sp of None \<Rightarrow> CustomEventName sp
                                | Some f \<Rightarrow> FunctionFName f)"
  shows "FindFunctionGraph (GetEventName sp) (FunctionGraphs g) = None"
  using assms by (simp add: FindFunctionGraph_None GetEventName_def)

text \<open>
  Claim C4 (ghost override), as stated, fails in two ways. Where a function sub-graph bears the
  identity's name, \<^verbatim>\<open>Invoke\<close> returns the sub-graph's first entry node without asking whether
  it is a ghost, and it returns before the ghost found by the lookup is dealt with, so that
  ghost stays in the graph. And where the ghost found by the lookup lies in another graph of the
  blueprint than the parent graph, the cascade severs its links but \<^verbatim>\<open>RemoveNode\<close> is called
  on the parent graph: the ghost stays a node of its own graph, beside the node that is
  spawned.
\<close>

theorem Invoke_ghost_entry_counterexample:
  "Invoke (Create_CustomEvent K2Node_CustomEvent (Name ''Foo'')) (Some GhostEntryGraph) (3, 4)
     = Inr (Some 0, GhostEntryGraph) \<and>
   IsAutomaticallyPlacedGhostNode GhostEntryGraph 0 \<and>
   FindPreExistingEvent (Create_CustomEvent K2Node_CustomEvent (Name ''Foo'')) GhostEntryGraph = Some 1 \<and>
   IsAutomaticallyPlacedGhostNode GhostEntryGraph 1 \<and>
   1 \<in> set (Nodes GhostEntryGraph) \<and>
   FindPreExistingEvent (Create_EventFunc JumpFunction) GhostElsewhereGraph = Some 0 \<and>
   IsAutomaticallyPlacedGhostNode GhostElsewhereGraph 0 \<and>
   Invoke (Create_EventFunc JumpFunction) (Some GhostElsewhereGraph) (3, 4)
     = Inr (Some 3, AfterSpawn (Create_EventFunc JumpFunction)
                      (RemoveGhostNodes (Some 0) GhostElsewhereGraph) (3, 4)) \<and>
   BlueprintNodes (AfterSpawn (Create_EventFunc JumpFunction)
                     (RemoveGhostNodes (Some 0) GhostElsewhereGraph) (3, 4)) = [2, 0, 1, 3] \<and>
   IsAutomaticallyPlacedGhostNode
     (AfterSpawn (Create_EventFunc JumpFunction) (RemoveGhostNodes (Some 0) GhostElsewhereGraph) (3, 4)) 0"
  by code_simp

text \<open>
  Claim C4, amended. Let no function sub-graph of the blueprint bear the identity's resolved name
  and let the customization hook, if bound, leave a live node live. Then \<^verbatim>\<open>Invoke\<close> returns a
  node of the blueprint that is not a ghost. If moreover the lookup (made on a graph that is not
  a template outer) finds an automatically placed ghost \<open>e\<close> that is a node of the parent graph
  and of no other graph, the returned node is a fresh object (the store grows by it) in the
  parent graph, and \<open>e\<close> and every ghost node connected to it that lies in no other graph are
  out of the blueprint and without links.
\<close>

theorem Invoke_ghost_override:
  assumes nf: "\<forall>F. Some F \<in> set (FunctionGraphs g) \<longrightarrow>
                 GraphFName F \<noteq> (case EventFunc sp of None \<Rightarrow> CustomEventName sp
                                    | Some f \<Rightarrow> FunctionFName f)"
      and hook: "HookKeepsLive sp"
  shows "\<exists>n g'. Invoke sp (Some g) Location = Inr (Some n, g') \<and>
           n \<in> set (BlueprintNodes g') \<and> \<not> IsAutomaticallyPlacedGhostNode g' n \<and>
           (\<forall>e. \<not> bTemplateOuter g \<and> FindPreExistingEvent sp g = Some e \<and>
                 IsAutomaticallyPlacedGhostNode g e \<and>
                 e \<notin> set (EarlierGraphNodes g) \<and> e \<notin> set (LaterGraphNodes g) \<longrightarrow>
              n = length (Objects g) \<and> length (Objects g') = Suc (length (Objects g)) \<and>
              n \<in> set (Nodes g') \<and>
              (\<forall>m. GhostConnected g e m \<and>
                    m \<notin> set (EarlierGraphNodes g) \<and> m \<notin> set (LaterGraphNodes g) \<longrightarrow>
                 m \<notin> set (BlueprintNodes g') \<and> NodeLinkless g' m))"
proof (cases "if \<not> bTemplateOuter g then FindPreExistingEvent sp g else None")
  case None
  note nfg = Invoke_no_graph_of_name[OF nf]
  from None have inv: "Invoke sp (Some g) Location = Inr (Some (length (Objects g)), AfterSpawn sp g Location)"
    by (simp add: Invoke_lookup_path[OF nfg])
  have no: "\<not> (\<not> bTemplateOuter g \<and> FindPreExistingEvent sp g = Some e \<and>
            IsAutomaticallyPlacedGhostNode g e \<and>
            e \<notin> set (EarlierGraphNodes g) \<and> e \<notin> set (LaterGraphNodes g))" for e
    using None by (auto split: if_splits)
  have a: "length (Objects g) \<in> set (BlueprintNodes (AfterSpawn sp g Location))"
    by (simp add: BlueprintNodes_AfterSpawn)
  have b: "\<not> IsAutomaticallyPlacedGhostNode (AfterSpawn sp g Location) (length (Objects g))"
    by (rule AfterSpawn_IsGhost_new[OF hook])
  show ?thesis
    apply (rule exI[of _ "length (Objects g)"])
    apply (rule exI[of _ "AfterSpawn sp g Location"])
    using inv a b no by blast
next
  case (Some e)
  note nfg = Invoke_no_graph_of_name[OF nf]
  from Some have nt: "\<not> bTemplateOuter g" and fe: "FindPreExistingEvent sp g = Some e"
    by (auto split: if_splits)
  show ?thesis
  proof (cases "IsAutomaticallyPlacedGhostNode g e")
    case False
    have inv: "Invoke sp (Some g) Location = Inr (Some e, g)"
      using Some False by (simp add: Invoke_lookup_path[OF nfg])
    have "e \<in> set (BlueprintNodes g)" using FindPreExistingEvent_Some[OF fe] by simp
    with inv False fe show ?thesis by simp
  next
    case True
    let ?g1 = "RemoveGhostNodes (Some e) g"
    let ?g2 = "AfterSpawn sp ?g1 Location"
    have len: "length (Objects ?g1) = length (Objects g)" by (rule RemoveGhostNodes_length_Objects)
    have "CascadeFrame g ?g1" by (rule RemoveGhostNodes_CascadeFrame(1))
    then have og: "EarlierGraphNodes ?g1 = EarlierGraphNodes g" "LaterGraphNodes ?g1 = LaterGraphNodes g"
      by (simp_all add: CascadeFrame_def SameNodeData_other_graphs)
    have inv: "Invoke sp (Some g) Location = Inr (Some (length (Objects g)), ?g2)"
      using Some True by (simp add: Invoke_lookup_path[OF nfg] len)
    have a: "length (Objects g) \<in> set (Nodes ?g2)" by (simp add: len)
    have a': "length (Objects g) \<in> set (BlueprintNodes ?g2)" by (rule Nodes_BlueprintNodes[OF a])
    have b: "\<not> IsAutomaticallyPlacedGhostNode ?g2 (length (Objects g))"
      using AfterSpawn_IsGhost_new[OF hook, of ?g1 Location] by (simp add: len)
    have c: "length (Objects ?g2) = Suc (length (Objects g))" by (simp add: len)
    have d: "m \<notin> set (BlueprintNodes ?g2) \<and> NodeLinkless ?g2 m"
      if "GhostConnected g e m" and "m \<notin> set (EarlierGraphNodes g)" and "m \<notin> set (LaterGraphNodes g)"
      for m
    proof -
      have "Gone ?g1 m" by (rule RemoveGhostNodes_GhostConnected[OF that(1)])
      moreover have "m < length (Objects ?g1)"
        using IsGhost_in_store[OF GhostConnected_ghost[OF that(1)]] len by simp
      ultimately have "m \<notin> set (Nodes ?g2) \<and> NodeLinkless ?g2 m" by (rule Gone_AfterSpawn)
      then show ?thesis using that(2,3) og by (simp add: BlueprintNodes_def)
    qed
    have e: "e' = e" if "FindPreExistingEvent sp g = Some e'" for e'
      using that fe by simp
    show ?thesis
      apply (rule exI[of _ "length (Objects g)"])
      apply (rule exI[of _ ?g2])
      using inv a a' b c d e by blast
  qed
qed

lemma GhostOverrideGraph_Invoke:
  "Invoke (Create_EventFunc JumpFunction) (Some GhostOverrideGraph) (3, 4)
     = Inr (Some 3,
         \<lparr>Objects = [\<lparr>GetClass = EventClass K2Node_Event, bAutoPlacedGhost = True,
                       Pins = [MakePin []], bOverrideFunction = True,
                       EventReference = \<lparr>MemberParent = Some 7, MemberName = Name ''Jump''\<rparr>,
                       CustomFunctionName = NAME_None, NodePos = (0, 0)\<rparr>,
                     ExampleNode K2Node_Other True NAME_None [MakePin []],
                     ExampleNode (EventClass K2Node_CustomEvent) False (Name ''Tick'') [],
                     \<lparr>GetClass = EventClass K2Node_Event, bAutoPlacedGhost = False,
                       Pins = [], bOverrideFunction = True,
                       EventReference = \<lparr>MemberParent = Some 7, MemberName = Name ''Jump''\<rparr>,
                       CustomFunctionName = NAME_None, NodePos = (3, 4)\<rparr>],
          Nodes = [3], EarlierGraphNodes = [2], LaterGraphNodes = [],
          FunctionGraphs = [None, Some (FooGraph [])], bTemplateOuter = False\<rparr>)"
  by code_simp

theorem Invoke_ghost_override_witness:
  "GraphFName (FooGraph []) \<noteq> FunctionFName JumpFunction \<and>
   HookKeepsLive (Create_EventFunc JumpFunction) \<and>
   \<not> bTemplateOuter GhostOverrideGraph \<and>
   FindPreExistingEvent (Create_EventFunc JumpFunction) GhostOverrideGraph = Some 0 \<and>
   IsAutomaticallyPlacedGhostNode GhostOverrideGraph 0 \<and>
   GhostConnected GhostOverrideGraph 0 1 \<and>
   EarlierGraphNodes GhostOverrideGraph = [2] \<and> LaterGraphNodes GhostOverrideGraph = [] \<and>
   (\<exists>g'. Invoke (Create_EventFunc JumpFunction) (Some GhostOverrideGraph) (3, 4) = Inr (Some 3, g') \<and>
         3 \<in> set (Nodes g') \<and> \<not> IsAutomaticallyPlacedGhostNode g' 3 \<and>
         length (Objects g') = 4 \<and>
         0 \<notin> set (BlueprintNodes g') \<and> 1 \<notin> set (BlueprintNodes g') \<and>
         NodeLinkless g' 0 \<and> NodeLinkless g' 1)"
proof -
  let ?sp = "Create_EventFunc JumpFunction"
  let ?G = GhostOverrideGraph
  have nm: "GraphFName (FooGraph []) \<noteq> FunctionFName JumpFunction"
    by (simp add: FooGraph_def JumpFunction_def)
  have nf: "\<forall>F. Some F \<in> set (FunctionGraphs ?G) \<longrightarrow>
              GraphFName F \<noteq> (case EventFunc ?sp of None \<Rightarrow> CustomEventName ?sp
                                 | Some f \<Rightarrow> FunctionFName f)"
    by (simp add: GhostOverrideGraph_def Create_EventFunc_def FooGraph_def JumpFunction_def)
  have hk: "HookKeepsLive ?sp"
    by (rule HookKeepsLive_unbound) (simp add: Create_EventFunc_def)
  have nt: "\<not> bTemplateOuter ?G" by (simp add: GhostOverrideGraph_def)
  have fe: "FindPreExistingEvent ?sp ?G = Some 0"
    by (simp add: FindPreExistingEvent_def FindOverrideForFunction_def GetAllEventNodes_def
        BlueprintNodes_def IsEventNode_def Create_EventFunc_def JumpFunction_def
        GhostOverrideGraph_def GhostOverrideObjects_def ExampleNode_def)
  have g0: "IsAutomaticallyPlacedGhostNode ?G 0" and g1: "IsAutomaticallyPlacedGhostNode ?G 1"
    by (simp_all add: IsAutomaticallyPlacedGhostNode_def GhostOverrideGraph_def
        GhostOverrideObjects_def ExampleNode_def)
  have l: "(1, 0) \<in> set (GetLinkedTo ?G (0, 0))"
    by (simp add: GetLinkedTo_def NodePins_def GhostOverrideGraph_def GhostOverrideObjects_def
        MakePin_def)
  have c0: "GhostConnected ?G 0 0" by (rule GhostConnected.start[OF g0])
  have c1: "GhostConnected ?G 0 1" using GhostConnected.step[OF c0 l] g1 by simp
  have len: "length (Objects ?G) = 3"
    by (simp add: GhostOverrideGraph_def GhostOverrideObjects_def)
  have og: "EarlierGraphNodes ?G = [2]" "LaterGraphNodes ?G = []"
    by (simp_all add: GhostOverrideGraph_def)
  from Invoke_ghost_override[OF nf hk, of "(3, 4)"] obtain n g' where
    inv: "Invoke ?sp (Some ?G) (3, 4) = Inr (Some n, g')" and
    n: "\<not> IsAutomaticallyPlacedGhostNode g' n" and
    ov: "\<forall>e. \<not> bTemplateOuter ?G \<and> FindPreExistingEvent ?sp ?G = Some e \<and>
             IsAutomaticallyPlacedGhostNode ?G e \<and>
             e \<notin> set (EarlierGraphNodes ?G) \<and> e \<notin> set (LaterGraphNodes ?G) \<longrightarrow>
          n = length (Objects ?G) \<and> length (Objects g') = Suc (length (Objects ?G)) \<and>
          n \<in> set (Nodes g') \<and>
          (\<forall>m. GhostConnected ?G e m \<and>
                m \<notin> set (EarlierGraphNodes ?G) \<and> m \<notin> set (LaterGraphNodes ?G) \<longrightarrow>
             m \<notin> set (BlueprintNodes g') \<and> NodeLinkless g' m)"
    by blast
  have e0: "(0::nat) \<notin> set (EarlierGraphNodes ?G) \<and> (0::nat) \<notin> set (LaterGraphNodes ?G)"
    and e1: "(1::nat) \<notin> set (EarlierGraphNodes ?G) \<and> (1::nat) \<notin> set (LaterGraphNodes ?G)"
    by (simp_all add: og)
  from ov nt fe g0 e0 have r: "n = 3" "length (Objects g') = 4" "n \<in> set (Nodes g')"
    "\<forall>m. GhostConnected ?G 0 m \<and>
          m \<notin> set (EarlierGraphNodes ?G) \<and> m \<notin> set (LaterGraphNodes ?G) \<longrightarrow>
       m \<notin> set (BlueprintNodes g') \<and> NodeLinkless g' m"
    using len by auto
  from r(4) c0 c1 e0 e1
  have "0 \<notin> set (BlueprintNodes g') \<and> 1 \<notin> set (BlueprintNodes g') \<and>
        NodeLinkless g' 0 \<and> NodeLinkless g' 1"
    by blast
  with inv n r(1,2,3) have "\<exists>g'. Invoke ?sp (Some ?G) (3, 4) = Inr (Some 3, g') \<and>
         3 \<in> set (Nodes g') \<and> \<not> IsAutomaticallyPlacedGhostNode g' 3 \<and>
         length (Objects g') = 4 \<and>
         0 \<notin> set (BlueprintNodes g') \<and> 1 \<notin> set (BlueprintNodes g') \<and>
         NodeLinkless g' 0 \<and> NodeLinkless g' 1"
    by auto
  with nm hk nt fe g0 c1 og show ?thesis by blast
qed

subsection \<open>Idempotence\<close>

lemma AtMostOneMatch_unique:
  "AtMostOneMatch sp g \<Longrightarrow> a \<in> set (BlueprintNodes g) \<Longrightarrow> b \<in> set (BlueprintNodes g) \<Longrightarrow>
   NodeMatches sp g a \<Longrightarrow> NodeMatches sp g b \<Longrightarrow> a = b"
  unfolding AtMostOneMatch_def list_all_iff by blast

lemma GhostMatchesInParent_iff:
  "GhostMatchesInParent sp g \<longleftrightarrow>
     (\<forall>n. NodeMatches sp g n \<and> IsAutomaticallyPlacedGhostNode g n \<longrightarrow>
          n \<notin> set (EarlierGraphNodes g) \<and> n \<notin> set (LaterGraphNodes g))"
  unfolding GhostMatchesInParent_def list_all_iff by auto

lemma find_append_first:
  assumes "P x" and "\<forall>y\<in>set xs. P y \<longrightarrow> y = x"
  shows "find P (xs @ x # zs) = Some x"
  using assms by (induction xs) auto

lemma NodeMatches_AfterSpawn_old:
  "n < length (Objects g) \<Longrightarrow> NodeMatches sp (AfterSpawn sp' g Location) n = NodeMatches sp g n"
  by (simp add: NodeMatches_def AfterSpawn_nth)

lemma NodeMatches_AfterSpawn_beyond:
  "length (Objects g) < n \<Longrightarrow> \<not> NodeMatches sp (AfterSpawn sp' g Location) n"
  by (simp add: NodeMatches_def)

lemma NodeMatches_AfterSpawn_new:
  assumes "\<not> bTemplateOuter g" and "HasVariant sp" and "HookKeepsMatch sp"
  shows "NodeMatches sp (AfterSpawn sp g Location) (length (Objects g))"
  using SpawnedNode_matches[OF assms] by (simp add: NodeMatches_def)

lemma SameNodeData_NodeMatches:
  assumes "SameNodeData g g'"
  shows "NodeMatches sp g' n = NodeMatches sp g n"
proof (cases "n < length (Objects g)")
  case False
  then show ?thesis using SameNodeData_length[OF assms] by (simp add: NodeMatches_def)
next
  case True
  have s: "StripLinks (Objects g' ! n) = StripLinks (Objects g ! n)"
    by (rule SameNodeData_nth[OF assms True])
  have "MatchesIdentity sp (Objects g' ! n) = MatchesIdentity sp (Objects g ! n)"
    using StripLinks_fields(1,3,4,5)[OF s] by (simp add: MatchesIdentity_def split: option.split)
  then show ?thesis using True SameNodeData_length[OF assms] by (simp add: NodeMatches_def)
qed

text \<open>
  Invoking again on the graph a spawn has left: the lookup finds the new node, when no node
  that the walk reaches before it carries the mark.
\<close>

lemma Invoke_after_spawn:
  assumes nf: "FindFunctionGraph (GetEventName sp) (FunctionGraphs g) = None"
      and nt: "\<not> bTemplateOuter g" and hv: "HasVariant sp"
      and hm: "HookKeepsMatch sp" and hl: "HookKeepsLive sp"
      and none: "\<forall>y\<in>set (EarlierGraphNodes g @ Nodes g). \<not> NodeMatches sp g y"
  shows "Invoke sp (Some (AfterSpawn sp g Location)) Location'
           = Inr (Some (length (Objects g)), AfterSpawn sp g Location)"
proof -
  let ?g2 = "AfterSpawn sp g Location"
  let ?x = "length (Objects g)"
  have nf2: "FindFunctionGraph (GetEventName sp) (FunctionGraphs ?g2) = None" using nf by simp
  have new: "NodeMatches sp ?g2 ?x" by (rule NodeMatches_AfterSpawn_new[OF nt hv hm])
  have old: "\<forall>y\<in>set (EarlierGraphNodes g @ Nodes g). NodeMatches sp ?g2 y \<longrightarrow> y = ?x"
  proof (intro ballI impI)
    fix y assume y: "y \<in> set (EarlierGraphNodes g @ Nodes g)" and m: "NodeMatches sp ?g2 y"
    show "y = ?x"
    proof (rule ccontr)
      assume ne: "y \<noteq> ?x"
      show False
      proof (cases "y < ?x")
        case True
        with m have "NodeMatches sp g y" by (simp add: NodeMatches_AfterSpawn_old)
        with none y show False by blast
      next
        case False
        with ne have "?x < y" by simp
        with m show False using NodeMatches_AfterSpawn_beyond by blast
      qed
    qed
  qed
  have "FindPreExistingEvent sp ?g2 = Some ?x"
    unfolding FindPreExistingEvent_find BlueprintNodes_AfterSpawn
    by (rule find_append_first[OF new old])
  moreover have "\<not> IsAutomaticallyPlacedGhostNode ?g2 ?x" by (rule AfterSpawn_IsGhost_new[OF hl])
  ultimately show ?thesis using nt by (simp add: Invoke_lookup_path[OF nf2])
qed

text \<open>
  Claim C1 (idempotence), amended. Let the graph be no template outer, the identity have a
  variant set, and the customization hook (if bound) leave the mark and the liveness of the new
  node alone; let at most one node of the blueprint carry the identity's mark, and let no ghost
  node carrying it lie in a graph of the blueprint other than the parent graph. Then \<^verbatim>\<open>Invoke\<close>
  returns a result, and invoking again on the graph it left returns the same node and leaves
  that graph unchanged: the second call creates nothing.
\<close>

theorem Invoke_idempotent:
  assumes nt: "\<not> bTemplateOuter g" and hv: "HasVariant sp"
      and hm: "HookKeepsMatch sp" and hl: "HookKeepsLive sp"
      and one: "AtMostOneMatch sp g" and here: "GhostMatchesInParent sp g"
  shows "\<exists>r g'. Invoke sp (Some g) Location = Inr (r, g') \<and>
                Invoke sp (Some g') Location' = Inr (r, g')"
proof (cases "FindFunctionGraph (GetEventName sp) (FunctionGraphs g)")
  case (Some FuncGraph)
  have "Invoke sp (Some g) Location = Invoke sp (Some g) Location'"
    by (simp add: Invoke_function_graph[OF Some])
  moreover have "\<exists>r. Invoke sp (Some g) Location = Inr (r, g)"
    by (simp add: Invoke_function_graph[OF Some] split: list.split)
  ultimately show ?thesis by auto
next
  case None
  note nf = None
  show ?thesis
  proof (cases "FindPreExistingEvent sp g")
    case None
    then have "\<forall>y\<in>set (BlueprintNodes g). \<not> NodeMatches sp g y"
      unfolding FindPreExistingEvent_find by (simp add: find_None_iff)
    then have none: "\<forall>y\<in>set (EarlierGraphNodes g @ Nodes g). \<not> NodeMatches sp g y"
      by (auto simp: BlueprintNodes_def)
    have "Invoke sp (Some g) Location = Inr (Some (length (Objects g)), AfterSpawn sp g Location)"
      using None nt by (simp add: Invoke_lookup_path[OF nf])
    with Invoke_after_spawn[OF nf nt hv hm hl none, of Location Location'] show ?thesis by blast
  next
    case (Some e)
    note fe = Some
    show ?thesis
    proof (cases "IsAutomaticallyPlacedGhostNode g e")
      case False
      have "Invoke sp (Some g) Location = Inr (Some e, g)"
           "Invoke sp (Some g) Location' = Inr (Some e, g)"
        using fe nt False by (simp_all add: Invoke_lookup_path[OF nf])
      then show ?thesis by blast
    next
      case True
      let ?g1 = "RemoveGhostNodes (Some e) g"
      have fr: "CascadeFrame g ?g1" by (rule RemoveGhostNodes_CascadeFrame(1))
      then have sd: "SameNodeData g ?g1" by (simp add: CascadeFrame_def)
      have len: "length (Objects ?g1) = length (Objects g)" by (rule RemoveGhostNodes_length_Objects)
      have inv1: "Invoke sp (Some g) Location = Inr (Some (length (Objects ?g1)), AfterSpawn sp ?g1 Location)"
        using fe nt True by (simp add: Invoke_lookup_path[OF nf])
      have nf1: "FindFunctionGraph (GetEventName sp) (FunctionGraphs ?g1) = None"
        using nf sd by (simp add: SameNodeData_def)
      have nt1: "\<not> bTemplateOuter ?g1" using nt sd by (simp add: SameNodeData_def)
      have em: "e \<in> set (BlueprintNodes g)" "NodeMatches sp g e"
        using FindPreExistingEvent_Some[OF fe] by simp_all
      have eo: "e \<notin> set (EarlierGraphNodes g)"
        using here em(2) True unfolding GhostMatchesInParent_iff by blast
      have gone: "e \<notin> set (Nodes ?g1)"
        using RemoveGhostNodes_Gone[OF True] by (simp add: Gone_def)
      have none1: "\<forall>y\<in>set (EarlierGraphNodes ?g1 @ Nodes ?g1). \<not> NodeMatches sp ?g1 y"
      proof (intro ballI notI)
        fix y assume y: "y \<in> set (EarlierGraphNodes ?g1 @ Nodes ?g1)" and m: "NodeMatches sp ?g1 y"
        from y have y': "y \<in> set (EarlierGraphNodes g) \<or> y \<in> set (Nodes ?g1)"
          using SameNodeData_other_graphs[OF sd] by simp
        then have "y \<in> set (BlueprintNodes g)"
          using CascadeFrame_Nodes[OF fr] by (auto simp: BlueprintNodes_def)
        moreover have "NodeMatches sp g y" using m SameNodeData_NodeMatches[OF sd] by simp
        ultimately have "y = e" using AtMostOneMatch_unique[OF one _ em(1) _ em(2)] by blast
        with y' eo gone show False by blast
      qed
      from Invoke_after_spawn[OF nf1 nt1 hv hm hl none1, of Location Location'] inv1
      show ?thesis by blast
    qed
  qed
qed

lemma Invoke_twice_template:
  "Invoke (Create_CustomEvent K2Node_CustomEvent (Name ''Jump'')) (Some TemplateGraph) (0, 0)
     = Inr (Some 0, AfterSpawn (Create_CustomEvent K2Node_CustomEvent (Name ''Jump'')) TemplateGraph (0, 0)) \<and>
   Invoke (Create_CustomEvent K2Node_CustomEvent (Name ''Jump''))
       (Some (AfterSpawn (Create_CustomEvent K2Node_CustomEvent (Name ''Jump'')) TemplateGraph (0, 0))) (0, 0)
     = Inr (Some 1, AfterSpawn (Create_CustomEvent K2Node_CustomEvent (Name ''Jump''))
                      (AfterSpawn (Create_CustomEvent K2Node_CustomEvent (Name ''Jump'')) TemplateGraph (0, 0)) (0, 0)) \<and>
   Nodes (AfterSpawn (Create_CustomEvent K2Node_CustomEvent (Name ''Jump''))
            (AfterSpawn (Create_CustomEvent K2Node_CustomEvent (Name ''Jump'')) TemplateGraph (0, 0)) (0, 0)) = [0, 1]"
  by code_simp

lemma Invoke_twice_nameless:
  "Invoke (Create_CustomEvent K2Node_CustomEvent NAME_None) (Some EmptyGraph) (0, 0)
     = Inr (Some 0, AfterSpawn (Create_CustomEvent K2Node_CustomEvent NAME_None) EmptyGraph (0, 0)) \<and>
   Invoke (Create_CustomEvent K2Node_CustomEvent NAME_None) (Some (AfterSpawn (Create_CustomEvent K2Node_CustomEvent NAME_None) EmptyGraph (0, 0))) (0, 0)
     = Inr (Some 1, AfterSpawn (Create_CustomEvent K2Node_CustomEvent NAME_None)
                      (AfterSpawn (Create_CustomEvent K2Node_CustomEvent NAME_None) EmptyGraph (0, 0)) (0, 0))"
  by code_simp

lemma Invoke_twice_two_ghosts:
  "Invoke (Create_CustomEvent K2Node_CustomEvent (Name ''Jump'')) (Some TwoGhostsGraph) (0, 0)
     = Inr (Some 2, AfterSpawn (Create_CustomEvent K2Node_CustomEvent (Name ''Jump''))
                      (RemoveGhostNodes (Some 0) TwoGhostsGraph) (0, 0)) \<and>
   Invoke (Create_CustomEvent K2Node_CustomEvent (Name ''Jump''))
       (Some (AfterSpawn (Create_CustomEvent K2Node_CustomEvent (Name ''Jump'')) (RemoveGhostNodes (Some 0) TwoGhostsGraph) (0, 0)))
       (0, 0)
     = Inr (Some 3, AfterSpawn (Create_CustomEvent K2Node_CustomEvent (Name ''Jump''))
                      (RemoveGhostNodes (Some 1)
                         (AfterSpawn (Create_CustomEvent K2Node_CustomEvent (Name ''Jump''))
                            (RemoveGhostNodes (Some 0) TwoGhostsGraph) (0, 0))) (0, 0))"
  by code_simp

lemma Invoke_twice_renaming:
  "Invoke RenamingSpawner (Some EmptyGraph) (0, 0)
     = Inr (Some 0, AfterSpawn RenamingSpawner EmptyGraph (0, 0)) \<and>
   Invoke RenamingSpawner (Some (AfterSpawn RenamingSpawner EmptyGraph (0, 0))) (0, 0)
     = Inr (Some 1, AfterSpawn RenamingSpawner (AfterSpawn RenamingSpawner EmptyGraph (0, 0)) (0, 0))"
  by code_simp

lemma Invoke_twice_ghost_elsewhere:
  "AtMostOneMatch (Create_EventFunc JumpFunction) GhostElsewhereGraph \<and>
   Invoke (Create_EventFunc JumpFunction) (Some GhostElsewhereGraph) (0, 0)
     = Inr (Some 3, AfterSpawn (Create_EventFunc JumpFunction)
                      (RemoveGhostNodes (Some 0) GhostElsewhereGraph) (0, 0)) \<and>
   Invoke (Create_EventFunc JumpFunction)
       (Some (AfterSpawn (Create_EventFunc JumpFunction) (RemoveGhostNodes (Some 0) GhostElsewhereGraph) (0, 0)))
       (0, 0)
     = Inr (Some 4, AfterSpawn (Create_EventFunc JumpFunction)
                      (RemoveGhostNodes (Some 0)
                         (AfterSpawn (Create_EventFunc JumpFunction)
                            (RemoveGhostNodes (Some 0) GhostElsewhereGraph) (0, 0))) (0, 0)) \<and>
   BlueprintNodes (AfterSpawn (Create_EventFunc JumpFunction)
                     (RemoveGhostNodes (Some 0)
                        (AfterSpawn (Create_EventFunc JumpFunction)
                           (RemoveGhostNodes (Some 0) GhostElsewhereGraph) (0, 0))) (0, 0))
     = [2, 0, 1, 3, 4]"
  by code_simp

text \<open>
  Claim C1 (idempotence), as stated for every identity and every graph, fails in five ways; in
  each the second call returns another node than the first and adds a node to the graph.
  On a template outer the lookup is skipped. The identity with no variant set (no function, no
  custom name) is never found again. When two ghost nodes carry the identity's mark, the second
  call removes the second ghost and spawns again. A customization hook that renames the new node
  hides it from the next lookup. And a ghost that carries the mark in a graph of the blueprint
  that the lookup reaches before the parent graph is found by every call and removed by none (the
  cascade takes nodes out of the parent graph only), so every call spawns, although that ghost
  is the only node of the blueprint with the mark.
\<close>

theorem Invoke_twice_counterexample:
  "(Invoke (Create_CustomEvent K2Node_CustomEvent (Name ''Jump'')) (Some TemplateGraph) (0, 0)
      = Inr (Some 0, AfterSpawn (Create_CustomEvent K2Node_CustomEvent (Name ''Jump'')) TemplateGraph (0, 0)) \<and>
    Invoke (Create_CustomEvent K2Node_CustomEvent (Name ''Jump''))
        (Some (AfterSpawn (Create_CustomEvent K2Node_CustomEvent (Name ''Jump'')) TemplateGraph (0, 0))) (0, 0)
      = Inr (Some 1, AfterSpawn (Create_CustomEvent K2Node_CustomEvent (Name ''Jump''))
                       (AfterSpawn (Create_CustomEvent K2Node_CustomEvent (Name ''Jump'')) TemplateGraph (0, 0)) (0, 0)) \<and>
    Nodes (AfterSpawn (Create_CustomEvent K2Node_CustomEvent (Name ''Jump''))
             (AfterSpawn (Create_CustomEvent K2Node_CustomEvent (Name ''Jump'')) TemplateGraph (0, 0)) (0, 0)) = [0, 1]) \<and>
   (Invoke (Create_CustomEvent K2Node_CustomEvent NAME_None) (Some EmptyGraph) (0, 0)
      = Inr (Some 0, AfterSpawn (Create_CustomEvent K2Node_CustomEvent NAME_None) EmptyGraph (0, 0)) \<and>
    Invoke (Create_CustomEvent K2Node_CustomEvent NAME_None) (Some (AfterSpawn (Create_CustomEvent K2Node_CustomEvent NAME_None) EmptyGraph (0, 0))) (0, 0)
      = Inr (Some 1, AfterSpawn (Create_CustomEvent K2Node_CustomEvent NAME_None)
                       (AfterSpawn (Create_CustomEvent K2Node_CustomEvent NAME_None) EmptyGraph (0, 0)) (0, 0))) \<and>
   (Invoke (Create_CustomEvent K2Node_CustomEvent (Name ''Jump'')) (Some TwoGhostsGraph) (0, 0)
      = Inr (Some 2, AfterSpawn (Create_CustomEvent K2Node_CustomEvent (Name ''Jump''))
                       (RemoveGhostNodes (Some 0) TwoGhostsGraph) (0, 0)) \<and>
    Invoke (Create_CustomEvent K2Node_CustomEvent (Name ''Jump''))
        (Some (AfterSpawn (Create_CustomEvent K2Node_CustomEvent (Name ''Jump'')) (RemoveGhostNodes (Some 0) TwoGhostsGraph) (0, 0)))
        (0, 0)
      = Inr (Some 3, AfterSpawn (Create_CustomEvent K2Node_CustomEvent (Name ''Jump''))
                       (RemoveGhostNodes (Some 1)
                          (AfterSpawn (Create_CustomEvent K2Node_CustomEvent (Name ''Jump''))
                             (RemoveGhostNodes (Some 0) TwoGhostsGraph) (0, 0))) (0, 0))) \<and>
   (Invoke RenamingSpawner (Some EmptyGraph) (0, 0)
      = Inr (Some 0, AfterSpawn RenamingSpawner EmptyGraph (0, 0)) \<and>
    Invoke RenamingSpawner (Some (AfterSpawn RenamingSpawner EmptyGraph (0, 0))) (0, 0)
      = Inr (Some 1, AfterSpawn RenamingSpawner (AfterSpawn RenamingSpawner EmptyGraph (0, 0)) (0, 0))) \<and>
   (AtMostOneMatch (Create_EventFunc JumpFunction) GhostElsewhereGraph \<and>
    Invoke (Create_EventFunc JumpFunction) (Some GhostElsewhereGraph) (0, 0)
      = Inr (Some 3, AfterSpawn (Create_EventFunc JumpFunction)
                       (RemoveGhostNodes (Some 0) GhostElsewhereGraph) (0, 0)) \<and>
    Invoke (Create_EventFunc JumpFunction)
        (Some (AfterSpawn (Create_EventFunc JumpFunction) (RemoveGhostNodes (Some 0) GhostElsewhereGraph) (0, 0)))
        (0, 0)
      = Inr (Some 4, AfterSpawn (Create_EventFunc JumpFunction)
                       (RemoveGhostNodes (Some 0)
                          (AfterSpawn (Create_EventFunc JumpFunction)
                             (RemoveGhostNodes (Some 0) GhostElsewhereGraph) (0, 0))) (0, 0)) \<and>
    BlueprintNodes (AfterSpawn (Create_EventFunc JumpFunction)
                      (RemoveGhostNodes (Some 0)
                         (AfterSpawn (Create_EventFunc JumpFunction)
                            (RemoveGhostNodes (Some 0) GhostElsewhereGraph) (0, 0))) (0, 0))
      = [2, 0, 1, 3, 4])"
  using Invoke_twice_template Invoke_twice_nameless Invoke_twice_two_ghosts Invoke_twice_renaming
    Invoke_twice_ghost_elsewhere
  by blast

theorem Invoke_idempotent_witness:
  "\<not> bTemplateOuter GhostOverrideGraph \<and>
   HasVariant (Create_EventFunc JumpFunction) \<and>
   HookKeepsMatch (Create_EventFunc JumpFunction) \<and>
   HookKeepsLive (Create_EventFunc JumpFunction) \<and>
   AtMostOneMatch (Create_EventFunc JumpFunction) GhostOverrideGraph \<and>
   GhostMatchesInParent (Create_EventFunc JumpFunction) GhostOverrideGraph \<and>
   (\<exists>g'. Invoke (Create_EventFunc JumpFunction) (Some GhostOverrideGraph) (3, 4) = Inr (Some 3, g') \<and>
         Invoke (Create_EventFunc JumpFunction) (Some g') (5, 6) = Inr (Some 3, g') \<and>
         Nodes g' = [3] \<and> BlueprintNodes g' = [2, 3])"
proof -
  let ?sp = "Create_EventFunc JumpFunction"
  have nt: "\<not> bTemplateOuter GhostOverrideGraph" by (simp add: GhostOverrideGraph_def)
  have hv: "HasVariant ?sp" by (simp add: HasVariant_def Create_EventFunc_def)
  have hm: "HookKeepsMatch ?sp" by (rule HookKeepsMatch_unbound) (simp add: Create_EventFunc_def)
  have hl: "HookKeepsLive ?sp" by (rule HookKeepsLive_unbound) (simp add: Create_EventFunc_def)
  have one: "AtMostOneMatch ?sp GhostOverrideGraph" by code_simp
  have here: "GhostMatchesInParent ?sp GhostOverrideGraph" by code_simp
  from Invoke_idempotent[OF nt hv hm hl one here, of "(3, 4)" "(5, 6)"] obtain r g' where
    i: "Invoke ?sp (Some GhostOverrideGraph) (3, 4) = Inr (r, g')"
       "Invoke ?sp (Some g') (5, 6) = Inr (r, g')"
    by blast
  from i(1) have "r = Some 3" "Nodes g' = [3]" "BlueprintNodes g' = [2, 3]"
    unfolding GhostOverrideGraph_Invoke by (auto simp: BlueprintNodes_def)
  with i have "\<exists>g'. Invoke ?sp (Some GhostOverrideGraph) (3, 4) = Inr (Some 3, g') \<and>
         Invoke ?sp (Some g') (5, 6) = Inr (Some 3, g') \<and> Nodes g' = [3] \<and>
         BlueprintNodes g' = [2, 3]"
    by blast
  with nt hv hm hl one here show ?thesis by blast
qed

end
